theory Spec2Isabelle
  imports Complex_Main
begin

section \<open>The incremental graph store of the single-run viewer (single\_qa.js)\<close>

text \<open>
  The viewer keeps one module-level object \<open>currentGraphData = {nodes, links}\<close> and
  mutates it from \<open>updateGraph\<close> and from \<open>renderCurrentGraph\<close>. The model passes
  that object explicitly. JavaScript objects are open-ended; the model keeps the fields
  that the source names. A field that may be missing from an incoming record is an
  \<open>option\<close> (\<open>None\<close>: the property is absent, so \<open>Object.assign\<close> and the spread
  operator do not copy it). Ids, names and statuses are strings (lists of code units
  below 256), coordinates are mathematical reals, not IEEE doubles, and the properties
  the viewer only stores (\<open>type\<close>, \<open>description\<close>, \<open>group\<close>) hold any JSON value,
  \<open>null\<close> included.
\<close>

subsection \<open>JavaScript values\<close>

text \<open>
  A JSON value as a payload can carry it in a stored property: \<open>null\<close>, a boolean, a
  number, a string, or an array or object (given by its JSON text), which is always
  truthy.
\<close>

datatype jsval = JNull | JBool bool | JNum real | JStr string | JObject string

definition truthyVal :: "jsval \<Rightarrow> bool" where
  "truthyVal v =
     (case v of JNull \<Rightarrow> False | JBool b \<Rightarrow> b | JNum x \<Rightarrow> x \<noteq> 0 | JStr s \<Rightarrow> s \<noteq> []
      | JObject j \<Rightarrow> True)"

text \<open>\<open>v || d\<close> for a property that may be missing.\<close>

definition val_or :: "jsval option \<Rightarrow> jsval \<Rightarrow> jsval" where
  "val_or v d = (case v of None \<Rightarrow> d | Some x \<Rightarrow> if truthyVal x then x else d)"

subsection \<open>JavaScript string helpers\<close>

text \<open>\<open>a || b\<close> on possibly missing strings: the empty string and a missing value are falsy.\<close>

definition truthy :: "string option \<Rightarrow> bool" where
  "truthy v = (case v of None \<Rightarrow> False | Some s \<Rightarrow> s \<noteq> [])"

definition js_or :: "string option \<Rightarrow> string option \<Rightarrow> string option" where
  "js_or a b = (if truthy a then a else b)"

text \<open>\<open>a || 'literal'\<close>.\<close>

definition or_default :: "string option \<Rightarrow> string \<Rightarrow> string" where
  "or_default a d = (case a of None \<Rightarrow> d | Some s \<Rightarrow> if s = [] then d else s)"

text \<open>A value inside a template literal: \<open>undefined\<close> prints as the word.\<close>

definition template :: "string option \<Rightarrow> string" where
  "template v = (case v of None \<Rightarrow> ''undefined'' | Some s \<Rightarrow> s)"

fun startsWith :: "string \<Rightarrow> string \<Rightarrow> bool" where
  "startsWith s [] = True"
| "startsWith [] (c # cs) = False"
| "startsWith (d # ds) (c # cs) = (d = c \<and> startsWith ds cs)"

text \<open>\<open>s.includes(sub)\<close>: \<open>sub\<close> occurs in \<open>s\<close> as a contiguous substring.\<close>

fun str_includes :: "string \<Rightarrow> string \<Rightarrow> bool" where
  "str_includes [] sub = (sub = [])"
| "str_includes (c # cs) sub = (startsWith (c # cs) sub \<or> str_includes cs sub)"

text \<open>\<open>xs.find(p)\<close> returns a reference to an element of the array; the model returns
  the index of that element, so that a later mutation through the reference is an update
  of the list at that index.\<close>

fun findIndex :: "('a \<Rightarrow> bool) \<Rightarrow> 'a list \<Rightarrow> nat option" where
  "findIndex p [] = None"
| "findIndex p (x # xs) =
     (if p x then Some 0 else (case findIndex p xs of None \<Rightarrow> None | Some i \<Rightarrow> Some (Suc i)))"

subsection \<open>Data\<close>

text \<open>
  An incoming node record of a \<open>graph_update\<close> event. \<open>r_type\<close>, \<open>r_description\<close>
  and \<open>r_group\<close> are \<open>None\<close> when the record has no such property and \<open>Some v\<close> when
  it has one, whatever its value. The code reads \<open>expansion_status\<close> only through
  \<open>|| 'normal'\<close> and tests \<open>expansion_order\<close> only with \<open>=== 0\<close> and
  \<open>typeof ... === 'number'\<close>, so for the status \<open>None\<close> stands for a missing property and
  for \<open>null\<close> alike, and for the order for every value that is not a number. \<open>r_x\<close>
  and \<open>r_y\<close> are \<open>None\<close> when the record carries no coordinate.
\<close>

record node_record =
  r_id :: string
  r_name :: string
  r_type :: "jsval option"
  r_description :: "jsval option"
  r_group :: "jsval option"
  r_expansion_status :: "string option"
  r_expansion_order :: "int option"
  r_x :: "real option"
  r_y :: "real option"

text \<open>A node of the store. \<open>n_expansion_order = None\<close> is a value that is not a number.\<close>

record gnode =
  n_id :: string
  n_name :: string
  n_type :: jsval
  n_description :: jsval
  n_group :: jsval
  n_expansion_status :: string
  n_expansion_order :: "int option"
  n_x :: real
  n_y :: real

text \<open>
  An end of a stored link: the value of its property \<open>source\<close> (or \<open>target\<close>).
  \<open>updateGraph\<close> stores the normalised id there, or \<open>undefined\<close> when the record
  names none. When a link is drawn, \<open>renderCurrentGraph\<close> hands it to \<open>d3.forceLink\<close>,
  which replaces the id by the node object of that id. Of a node object the model keeps
  the id: it is the only property that the code of this model reads through a link end,
  and no update changes the id of a node object.
\<close>

datatype link_end = Undefined | Ident string | NodeObject string

definition toEnd :: "string option \<Rightarrow> link_end" where
  "toEnd v = (case v of None \<Rightarrow> Undefined | Some s \<Rightarrow> Ident s)"

text \<open>\<open>link.source_id || link.source\<close> on a stored link: an object is truthy.\<close>

definition end_or :: "string option \<Rightarrow> link_end \<Rightarrow> link_end" where
  "end_or a b = (case a of None \<Rightarrow> b | Some s \<Rightarrow> if s = [] then b else Ident s)"

text \<open>An end inside a template literal.\<close>

definition end_text :: "link_end \<Rightarrow> string" where
  "end_text e =
     (case e of Undefined \<Rightarrow> ''undefined'' | Ident s \<Rightarrow> s | NodeObject s \<Rightarrow> ''[object Object]'')"

text \<open>
  \<open>typeof d.source === 'object' ? d.source.id : d.source\<close>, the way the overlay reads
  the id at the end of a drawn line.
\<close>

definition end_id :: "link_end \<Rightarrow> string option" where
  "end_id e = (case e of Undefined \<Rightarrow> None | Ident s \<Rightarrow> Some s | NodeObject s \<Rightarrow> Some s)"

text \<open>
  An incoming link record, and a link of the store as \<open>updateGraph\<close> normalises it.
  A property of a link record is a string or is missing (\<open>None\<close>); a \<open>null\<close> there,
  which the code treats as a missing property except for the text it prints in the
  derived id, is not part of the model.
\<close>

record link_record =
  k_source_id :: "string option"
  k_source :: "string option"
  k_target_id :: "string option"
  k_target :: "string option"
  k_relation :: "string option"
  k_relationship :: "string option"

record glink =
  l_source :: link_end
  l_target :: link_end
  l_source_id :: "string option"
  l_target_id :: "string option"
  l_relation :: "string option"
  l_relationship :: "string option"
  l_id :: string

record expansion_node =
  e_id :: string
  e_name :: string

text \<open>The expansion information of a payload; \<open>current_node\<close> is the id of the
  current node, \<open>None\<close> when the payload names none.\<close>

record expansion_info =
  expansion_nodes :: "expansion_node list"
  current_node :: "string option"

text \<open>The payload of an update: each of the three properties may be missing.\<close>

record update_data =
  d_nodes :: "node_record list option"
  d_links :: "link_record list option"
  d_expansion_info :: "expansion_info option"

text \<open>
  What \<open>updateGraph\<close> reads from the page and the runtime: whether \<open>initGraph\<close> has
  run (\<open>g\<close> and \<open>simulation\<close> exist), the size of the graph container, the value of
  the \<open>initial-entity\<close> input (\<open>None\<close> when the element is missing), whether the
  \<open>expansion-info\<close> element exists, the values \<open>Math.random()\<close> returns, by the
  number of the call, and the runtime's \<open>String.prototype.trim\<close>.
\<close>

record env =
  initialised :: bool
  clientWidth :: nat
  clientHeight :: nat
  initial_entity :: "string option"
  expansion_container :: bool
  random :: "nat \<Rightarrow> real"
  trim :: "string \<Rightarrow> string"

text \<open>The store, with the number of calls of \<open>Math.random()\<close> made so far.\<close>

record graph =
  nodes :: "gnode list"
  links :: "glink list"
  rand_calls :: nat

definition emptyGraph :: graph where
  "emptyGraph = \<lparr>nodes = [], links = [], rand_calls = 0\<rparr>"

subsection \<open>Initial placement: createPositionedNode\<close>

definition containerWidth :: "env \<Rightarrow> real" where
  "containerWidth ev = (if clientWidth ev = 0 then 1200 else real (clientWidth ev))"

definition containerHeight :: "env \<Rightarrow> real" where
  "containerHeight ev = (if clientHeight ev = 0 then 800 else real (clientHeight ev))"

text \<open>
  The position \<open>createPositionedNode\<close> assigns to the node of ordinal \<open>index\<close> among
  \<open>totalNodes\<close>; \<open>u\<close> and \<open>v\<close> are the two values \<open>Math.random()\<close> returns in the
  last branch (the only one that calls it).
\<close>

definition placement :: "env \<Rightarrow> nat \<Rightarrow> nat \<Rightarrow> real \<Rightarrow> real \<Rightarrow> real \<times> real" where
  "placement ev index totalNodes u v =
     (let centerX = containerWidth ev / 2;
          centerY = containerHeight ev / 2
      in if totalNodes \<le> 1 then (centerX, centerY)
         else if totalNodes \<le> 6 then
           (let angle = (real index / real totalNodes) * 2 * pi;
                radius = 120
            in (centerX + cos angle * radius, centerY + sin angle * radius))
         else if totalNodes \<le> 20 then
           (let layer = nat \<lfloor>sqrt (real index)\<rfloor>;
                nodesInLayer = max 6 (layer * 6);
                angleStep = (2 * pi) / real nodesInLayer;
                angle = real (index mod nodesInLayer) * angleStep;
                radius = 80 + real layer * 100
            in (centerX + cos angle * radius, centerY + sin angle * radius))
         else
           (let gridSize = nat \<lceil>sqrt (real totalNodes)\<rceil> + 2;
                cellWidth = max 120 (min (containerWidth ev) (containerHeight ev) / real gridSize);
                cellHeight = cellWidth * 0.866;
                row = index div gridSize;
                col = index mod gridSize;
                offsetX = real (row mod 2) * (cellWidth / 2);
                x = (real col - real gridSize / 2) * cellWidth + centerX + offsetX;
                y = (real row - real gridSize / 2) * cellHeight + centerY
            in (x + (u - 0.5) * 40, y + (v - 0.5) * 40)))"

text \<open>The number of \<open>Math.random()\<close> calls one placement makes.\<close>

definition placement_draws :: "nat \<Rightarrow> nat" where
  "placement_draws totalNodes = (if totalNodes \<le> 20 then 0 else 2)"

text \<open>
  \<open>createPositionedNode(id, name, type, index, totalNodes)\<close> with \<open>c\<close> calls of
  \<open>Math.random()\<close> made before it: the positioned object \<open>{id, name, type, x, y}\<close>.
\<close>

record positioned =
  p_id :: string
  p_name :: string
  p_type :: "jsval option"
  p_x :: real
  p_y :: real

definition createPositionedNode ::
  "env \<Rightarrow> nat \<Rightarrow> string \<Rightarrow> string \<Rightarrow> jsval option \<Rightarrow> nat \<Rightarrow> nat \<Rightarrow> positioned" where
  "createPositionedNode ev c ident nm ty index totalNodes =
     (let xy = placement ev index totalNodes (random ev c) (random ev (Suc c))
      in \<lparr>p_id = ident, p_name = nm, p_type = ty, p_x = fst xy, p_y = snd xy\<rparr>)"

subsection \<open>Seed detection and the self-heal pass\<close>

definition matchesEntity :: "string \<Rightarrow> gnode \<Rightarrow> bool" where
  "matchesEntity inputEntity node =
     (n_name node = inputEntity \<or> n_id node = inputEntity \<or>
      str_includes (n_name node) inputEntity \<or> str_includes inputEntity (n_name node))"

text \<open>\<open>findInitialNode\<close>: the index of the node it returns, \<open>None\<close> for \<open>null\<close>.\<close>

definition findInitialNode :: "env \<Rightarrow> gnode list \<Rightarrow> nat option" where
  "findInitialNode ev ns =
     (if ns = [] then None
      else case findIndex (\<lambda>node. n_expansion_order node = Some 0) ns of
        Some i \<Rightarrow> Some i
      | None \<Rightarrow>
          (case (case initial_entity ev of
                   None \<Rightarrow> None
                 | Some val \<Rightarrow>
                     if trim ev val \<noteq> []
                     then findIndex (matchesEntity (trim ev val)) ns else None) of
             Some i \<Rightarrow> Some i
           | None \<Rightarrow> Some 0))"

definition is_normal :: "gnode \<Rightarrow> bool" where
  "is_normal node = (n_expansion_status node = ''normal'' \<or> n_expansion_status node = [])"

definition promote :: "gnode \<Rightarrow> gnode" where
  "promote node =
     (if is_normal node
      then node\<lparr>n_expansion_status := ''expansion'', n_expansion_order := Some 0\<rparr>
      else node)"

definition healOrder :: "gnode \<Rightarrow> gnode" where
  "healOrder node =
     (case n_expansion_order node of
        None \<Rightarrow> node
      | Some k \<Rightarrow>
          if 0 \<le> k \<and> is_normal node then node\<lparr>n_expansion_status := ''expansion''\<rparr> else node)"

definition ensureInitialNodeExpansionStatus :: "env \<Rightarrow> gnode list \<Rightarrow> gnode list" where
  "ensureInitialNodeExpansionStatus ev ns =
     (case findInitialNode ev ns of
        None \<Rightarrow> ns
      | Some i \<Rightarrow> map healOrder (ns[i := promote (ns ! i)]))"

subsection \<open>updateGraph\<close>

text \<open>The expansion sequence of the payload marks the incoming records before the merge.\<close>

definition markExpansion :: "expansion_info \<Rightarrow> node_record list \<Rightarrow> node_record list" where
  "markExpansion info rs =
     (if expansion_nodes info = [] then rs
      else map (\<lambda>node.
             if r_id node \<in> set (map e_id (expansion_nodes info))
             then node\<lparr>r_expansion_status :=
                    Some (if Some (r_id node) = current_node info then ''current'' else ''expansion'')\<rparr>
             else node) rs)"

text \<open>
  A node object as both branches of \<open>updateGraph\<close> build it:
  \<open>{...positionedNode, ...node, type: node.type || 'concept', ...}\<close>. The record's own
  \<open>x\<close> and \<open>y\<close>, when it has them, override the placement.
\<close>

definition newNode :: "positioned \<Rightarrow> node_record \<Rightarrow> gnode" where
  "newNode p node =
     \<lparr>n_id = r_id node, n_name = r_name node,
      n_type = val_or (r_type node) (JStr ''concept''),
      n_description = val_or (r_description node) (JStr []),
      n_group = val_or (r_group node) (JNum 0),
      n_expansion_status = or_default (r_expansion_status node) ''normal'',
      n_expansion_order = r_expansion_order node,
      n_x = (case r_x node of None \<Rightarrow> p_x p | Some x \<Rightarrow> x),
      n_y = (case r_y node of None \<Rightarrow> p_y p | Some y \<Rightarrow> y)\<rparr>"

text \<open>
  The update of an existing node: \<open>Object.assign(existingNode, node)\<close>, then \<open>x\<close> and
  \<open>y\<close> are put back, then the expansion status and order are set from the record.
\<close>

definition assignNode :: "gnode \<Rightarrow> node_record \<Rightarrow> gnode" where
  "assignNode existingNode node =
     existingNode\<lparr>n_id := r_id node, n_name := r_name node,
       n_type := (case r_type node of None \<Rightarrow> n_type existingNode | Some t \<Rightarrow> t),
       n_description :=
         (case r_description node of None \<Rightarrow> n_description existingNode | Some d \<Rightarrow> d),
       n_group := (case r_group node of None \<Rightarrow> n_group existingNode | Some k \<Rightarrow> k),
       n_expansion_status := or_default (r_expansion_status node) ''normal'',
       n_expansion_order := r_expansion_order node\<rparr>"

text \<open>
  The incremental branch: \<open>existing\<close> is the set of ids computed once before the loop;
  each record either pushes a new node, placed with the current store size as index and
  that size plus one as total, or updates the first node of its id.
\<close>

definition mergeNode :: "env \<Rightarrow> string list \<Rightarrow> node_record \<Rightarrow> graph \<Rightarrow> graph" where
  "mergeNode ev existing node gr =
     (if r_id node \<notin> set existing then
        (let n = length (nodes gr);
             p = createPositionedNode ev (rand_calls gr) (r_id node) (r_name node)
                   (r_type node) n (n + 1)
         in gr\<lparr>nodes := nodes gr @ [newNode p node],
               rand_calls := rand_calls gr + placement_draws (n + 1)\<rparr>)
      else
        (case findIndex (\<lambda>n. n_id n = r_id node) (nodes gr) of
           None \<Rightarrow> gr
         | Some i \<Rightarrow> gr\<lparr>nodes := (nodes gr)[i := assignNode (nodes gr ! i) node]\<rparr>))"

fun mergeNodes :: "env \<Rightarrow> string list \<Rightarrow> node_record list \<Rightarrow> graph \<Rightarrow> graph" where
  "mergeNodes ev existing [] gr = gr"
| "mergeNodes ev existing (node # rest) gr =
     mergeNodes ev existing rest (mergeNode ev existing node gr)"

text \<open>The full reload: every record is placed by its index in the incoming list.\<close>

fun reloadNodes :: "env \<Rightarrow> nat \<Rightarrow> nat \<Rightarrow> nat \<Rightarrow> node_record list \<Rightarrow> gnode list \<times> nat" where
  "reloadNodes ev c index totalNodes [] = ([], c)"
| "reloadNodes ev c index totalNodes (node # rest) =
     (let p = createPositionedNode ev c (r_id node) (r_name node) (r_type node) index totalNodes;
          r = reloadNodes ev (c + placement_draws totalNodes) (Suc index) totalNodes rest
      in (newNode p node # fst r, snd r))"

definition processLink :: "link_record \<Rightarrow> glink" where
  "processLink link =
     (let sourceId = js_or (k_source_id link) (k_source link);
          targetId = js_or (k_target_id link) (k_target link)
      in \<lparr>l_source = toEnd sourceId, l_target = toEnd targetId,
          l_source_id = sourceId, l_target_id = targetId,
          l_relation = k_relation link, l_relationship = k_relationship link,
          l_id = template sourceId @ ''-'' @ template targetId @ ''-'' @
                 template (js_or (js_or (k_relation link) (k_relationship link)) (Some ''related''))\<rparr>)"

definition updateNodes :: "env \<Rightarrow> bool \<Rightarrow> node_record list \<Rightarrow> graph \<Rightarrow> graph" where
  "updateNodes ev isIncremental rs gr =
     (if \<not> isIncremental then
        (let r = reloadNodes ev (rand_calls gr) 0 (length rs) rs
         in gr\<lparr>nodes := fst r, rand_calls := snd r\<rparr>)
      else mergeNodes ev (map n_id (nodes gr)) rs gr)"

definition updateLinks :: "bool \<Rightarrow> link_record list \<Rightarrow> graph \<Rightarrow> graph" where
  "updateLinks isIncremental ls gr =
     (let processedLinks = map processLink ls
      in if \<not> isIncremental then gr\<lparr>links := processedLinks\<rparr>
         else gr\<lparr>links := links gr @
                  filter (\<lambda>link. l_id link \<notin> set (map l_id (links gr))) processedLinks\<rparr>)"

text \<open>
  \<open>updateGraph\<close> in the order of its statements: the expansion information of the
  payload (\<open>updateExpansionDisplay\<close> runs the self-heal pass on the store when the
  \<open>expansion-info\<close> element exists, and the incoming records are marked), the nodes,
  the links, the self-heal pass, and the render, as far as it changes the store.
\<close>

definition expansionStage :: "env \<Rightarrow> update_data \<Rightarrow> graph \<Rightarrow> graph" where
  "expansionStage ev data gr =
     (case d_expansion_info data of
        None \<Rightarrow> gr
      | Some info \<Rightarrow>
          if expansion_container ev
          then gr\<lparr>nodes := ensureInitialNodeExpansionStatus ev (nodes gr)\<rparr>
          else gr)"

definition incomingNodes :: "update_data \<Rightarrow> node_record list option" where
  "incomingNodes data =
     (case d_expansion_info data of
        None \<Rightarrow> d_nodes data
      | Some info \<Rightarrow> map_option (markExpansion info) (d_nodes data))"

definition nodeStage :: "env \<Rightarrow> bool \<Rightarrow> update_data \<Rightarrow> graph \<Rightarrow> graph" where
  "nodeStage ev isIncremental data gr =
     (case incomingNodes data of
        None \<Rightarrow> gr
      | Some rs \<Rightarrow> updateNodes ev isIncremental rs gr)"

definition linkStage :: "bool \<Rightarrow> update_data \<Rightarrow> graph \<Rightarrow> graph" where
  "linkStage isIncremental data gr =
     (case d_links data of None \<Rightarrow> gr | Some ls \<Rightarrow> updateLinks isIncremental ls gr)"

definition healStage :: "env \<Rightarrow> graph \<Rightarrow> graph" where
  "healStage ev gr = gr\<lparr>nodes := ensureInitialNodeExpansionStatus ev (nodes gr)\<rparr>"

text \<open>
  The links \<open>renderCurrentGraph\<close> draws: those for which \<open>nodes.find\<close> gives a node
  at both ends. \<open>n.id === sourceId\<close> holds only if \<open>sourceId\<close> is an id, not a node
  object and not \<open>undefined\<close>.
\<close>

definition hasNode :: "gnode list \<Rightarrow> link_end \<Rightarrow> bool" where
  "hasNode ns e = (case e of Ident s \<Rightarrow> s \<in> set (map n_id ns) | _ \<Rightarrow> False)"

definition validLink :: "gnode list \<Rightarrow> glink \<Rightarrow> bool" where
  "validLink ns link =
     (hasNode ns (end_or (l_source_id link) (l_source link)) \<and>
      hasNode ns (end_or (l_target_id link) (l_target link)))"

definition validLinks :: "graph \<Rightarrow> glink list" where
  "validLinks gr = filter (validLink (nodes gr)) (links gr)"

text \<open>
  What \<open>renderCurrentGraph\<close> does to the link objects of the store that it draws:
  \<open>link.source = sourceId; link.target = targetId\<close>, and then \<open>d3.forceLink\<close>,
  installed with \<open>simulation.force\<close>, replaces each end that is not an object by the
  node object of that id (the valid links have one). The other links are left as they
  are.
\<close>

definition nodeOf :: "link_end \<Rightarrow> link_end" where
  "nodeOf e = (case e of Ident s \<Rightarrow> NodeObject s | _ \<Rightarrow> e)"

definition bindLink :: "glink \<Rightarrow> glink" where
  "bindLink link =
     link\<lparr>l_source := nodeOf (end_or (l_source_id link) (l_source link)),
          l_target := nodeOf (end_or (l_target_id link) (l_target link))\<rparr>"

definition renderStage :: "graph \<Rightarrow> graph" where
  "renderStage gr =
     gr\<lparr>links := map (\<lambda>link. if validLink (nodes gr) link then bindLink link else link)
                      (links gr)\<rparr>"

definition updateGraph :: "env \<Rightarrow> graph \<Rightarrow> update_data \<Rightarrow> bool \<Rightarrow> graph" where
  "updateGraph ev gr data isIncremental =
     (if \<not> initialised ev then gr
      else renderStage (healStage ev (linkStage isIncremental data
             (nodeStage ev isIncremental data (expansionStage ev data gr)))))"

text \<open>A sequence of \<open>graph_update\<close> events, handled one after the other.\<close>

definition applyIncremental :: "env \<Rightarrow> graph \<Rightarrow> update_data list \<Rightarrow> graph" where
  "applyIncremental ev gr batches = foldl (\<lambda>g data. updateGraph ev g data True) gr batches"

subsection \<open>Node radius, rendering and the view box\<close>

text \<open>
  \<open>getNodeRadius\<close>: 25 plus twice the number of links touching the node, capped at 15.
  The comparison \<open>(link.source_id || link.source) === d.id\<close> holds only of an id, not
  of a node object.
\<close>

definition touches :: "glink \<Rightarrow> string \<Rightarrow> bool" where
  "touches link ident =
     (end_or (l_source_id link) (l_source link) = Ident ident \<or>
      end_or (l_target_id link) (l_target link) = Ident ident)"

definition getNodeRadius :: "glink list \<Rightarrow> gnode \<Rightarrow> nat" where
  "getNodeRadius ls d =
     (let connectionCount = length (filter (\<lambda>link. touches link (n_id d)) ls)
      in 25 + min (connectionCount * 2) 15)"

definition getNodeColor :: "gnode \<Rightarrow> string" where
  "getNodeColor d =
     (if n_expansion_status d = ''current'' then ''#1e40af''
      else if n_expansion_status d = ''expansion'' then ''#60a5fa''
      else ''#94a3b8'')"

text \<open>
  \<open>let m = Infinity; xs.forEach(v => m = Math.min(m, v))\<close> on a list that is not empty
  (both callers return before the loop when it is), and the same with \<open>Math.max\<close>.
\<close>

definition low :: "real list \<Rightarrow> real" where
  "low vs = fold min (tl vs) (hd vs)"

definition high :: "real list \<Rightarrow> real" where
  "high vs = fold max (tl vs) (hd vs)"

text \<open>The four numbers of the \<open>viewBox\<close> attribute that \<open>adjustViewBox\<close> sets on the svg.\<close>

record viewbox =
  vb_x :: real
  vb_y :: real
  vb_width :: real
  vb_height :: real

text \<open>
  \<open>adjustViewBox\<close> returns before the loop when the store has no node (\<open>Skipped\<close>).
  The function divides the container size by its local \<open>scale\<close>, which is 0 when the
  container has no width or no height; in JavaScript the quotient is then \<open>NaN\<close> or
  \<open>Infinity\<close> and the attribute is not a rectangle (\<open>Invalid\<close>).
\<close>

datatype view_result = Skipped | Invalid | Fitted viewbox

definition adjustViewBox :: "env \<Rightarrow> graph \<Rightarrow> view_result" where
  "adjustViewBox ev gr =
     (if nodes gr = [] then Skipped
      else
        (let padding = 100;
             radius = (\<lambda>node. real (getNodeRadius (links gr) node));
             minX = low (map (\<lambda>node. n_x node - radius node) (nodes gr));
             maxX = high (map (\<lambda>node. n_x node + radius node) (nodes gr));
             minY = low (map (\<lambda>node. n_y node - radius node) (nodes gr));
             maxY = high (map (\<lambda>node. n_y node + radius node) (nodes gr));
             graphWidth = maxX - minX + padding * 2;
             graphHeight = maxY - minY + padding * 2;
             graphCenterX = (minX + maxX) / 2;
             graphCenterY = (minY + maxY) / 2;
             cw = real (clientWidth ev);
             ch = real (clientHeight ev);
             scale = min (min (cw / graphWidth) (ch / graphHeight)) 1
         in if scale = 0 then Invalid
            else
              (let viewBoxWidth = max graphWidth (cw / scale);
                   viewBoxHeight = max graphHeight (ch / scale)
               in Fitted \<lparr>vb_x = graphCenterX - viewBoxWidth / 2,
                          vb_y = graphCenterY - viewBoxHeight / 2,
                          vb_width = viewBoxWidth, vb_height = viewBoxHeight\<rparr>)))"

subsection \<open>The drawn elements and the highlight overlay\<close>

text \<open>
  The style properties the viewer sets on a node's circle and on a link's line, with the
  \<open>sampled\<close> class of the element. Widths are in pixels.
\<close>

record node_style =
  ns_fill :: string
  ns_stroke :: string
  ns_stroke_width :: real
  ns_opacity :: real
  ns_filter :: string
  ns_sampled :: bool

record link_style =
  ls_stroke :: string
  ls_stroke_width :: real
  ls_opacity :: real
  ls_marker_end :: string
  ls_filter :: string
  ls_sampled :: bool

text \<open>The elements inside \<open>g\<close>, each with the datum bound to it.\<close>

record display =
  node_groups :: "(gnode \<times> node_style) list"
  link_lines :: "(glink \<times> link_style) list"

text \<open>
  What \<open>renderCurrentGraph\<close> draws into an empty \<open>g\<close>: one group per node and one line
  per valid link. The datum of a line is the link object of the store, which the same
  call binds to its nodes. It sets no opacity and no filter on a circle and no filter on
  a line; the model gives those the initial values of the properties (1 and \<open>none\<close>).
\<close>

definition renderNodeStyle :: "gnode \<Rightarrow> node_style" where
  "renderNodeStyle d =
     \<lparr>ns_fill = getNodeColor d,
      ns_stroke = (if n_expansion_status d = ''current'' then ''#1e3a8a''
                   else if n_expansion_status d = ''expansion'' then ''#2563eb''
                   else ''#6b7280''),
      ns_stroke_width = (if n_expansion_status d = ''current'' then 4
                         else if n_expansion_status d = ''expansion'' then 3
                         else 2),
      ns_opacity = 1, ns_filter = ''none'', ns_sampled = False\<rparr>"

definition renderLinkStyle :: link_style where
  "renderLinkStyle =
     \<lparr>ls_stroke = ''#64748b'', ls_stroke_width = 2.5, ls_opacity = 0.8,
      ls_marker_end = ''url(#arrowhead)'', ls_filter = ''none'', ls_sampled = False\<rparr>"

definition renderCurrentGraph :: "graph \<Rightarrow> display" where
  "renderCurrentGraph gr =
     \<lparr>node_groups = map (\<lambda>d. (d, renderNodeStyle d)) (nodes gr),
      link_lines = map (\<lambda>d. (bindLink d, renderLinkStyle)) (validLinks gr)\<rparr>"

record sampled_node =
  s_id :: "string option"
  s_name :: "string option"

record sampled_link =
  sl_source_id :: "string option"
  sl_source :: "string option"
  sl_target_id :: "string option"
  sl_target :: "string option"

definition pairId :: "string option \<Rightarrow> string option \<Rightarrow> string" where
  "pairId a b = template a @ ''-'' @ template b"

definition sampledNodeIds :: "sampled_node list \<Rightarrow> string list" where
  "sampledNodeIds sampledNodes =
     concat (map (\<lambda>node. case js_or (s_id node) (s_name node) of
                            None \<Rightarrow> []
                          | Some nodeId \<Rightarrow> if nodeId = [] then [] else [nodeId]) sampledNodes)"

definition sampledLinkIds :: "sampled_link list \<Rightarrow> string list" where
  "sampledLinkIds sampledLinks =
     concat (map (\<lambda>link.
        (let sourceId = js_or (sl_source_id link) (sl_source link);
             targetId = js_or (sl_target_id link) (sl_target link)
         in if truthy sourceId \<and> truthy targetId
            then [pairId sourceId targetId, pairId targetId sourceId] else [])) sampledLinks)"

text \<open>
  \<open>set.has(v)\<close> for the end of a link; the set holds strings only, so it has neither
  \<open>undefined\<close> nor a node object.
\<close>

definition has :: "string list \<Rightarrow> link_end \<Rightarrow> bool" where
  "has ids e = (case e of Ident s \<Rightarrow> s \<in> set ids | _ \<Rightarrow> False)"

definition connectedLinkIds :: "graph \<Rightarrow> sampled_node list \<Rightarrow> sampled_link list \<Rightarrow> string list" where
  "connectedLinkIds gr sampledNodes sampledLinks =
     sampledLinkIds sampledLinks @
     concat (map (\<lambda>link.
        (let sourceId = end_or (l_source_id link) (l_source link);
             targetId = end_or (l_target_id link) (l_target link)
         in if has (sampledNodeIds sampledNodes) sourceId \<or> has (sampledNodeIds sampledNodes) targetId
            then [end_text sourceId @ ''-'' @ end_text targetId,
                  end_text targetId @ ''-'' @ end_text sourceId] else [])) (links gr))"

definition sampledNodeStyle :: node_style where
  "sampledNodeStyle =
     \<lparr>ns_fill = ''#3b82f6'', ns_stroke = ''#1d4ed8'', ns_stroke_width = 4, ns_opacity = 1,
      ns_filter = ''drop-shadow(0 0 8px rgba(59, 130, 246, 0.6))'', ns_sampled = True\<rparr>"

definition dimmedNodeStyle :: "gnode \<Rightarrow> node_style" where
  "dimmedNodeStyle d =
     \<lparr>ns_fill = getNodeColor d, ns_stroke = ''#6b7280'', ns_stroke_width = 1,
      ns_opacity = 0.4, ns_filter = ''none'', ns_sampled = False\<rparr>"

definition resetNodeStyle :: "gnode \<Rightarrow> node_style" where
  "resetNodeStyle d =
     \<lparr>ns_fill = getNodeColor d, ns_stroke = ''#6b7280'', ns_stroke_width = 2,
      ns_opacity = 1, ns_filter = ''none'', ns_sampled = False\<rparr>"

definition sampledLinkStyle :: link_style where
  "sampledLinkStyle =
     \<lparr>ls_stroke = ''#1d4ed8'', ls_stroke_width = 4, ls_opacity = 1,
      ls_marker_end = ''url(#arrowhead-highlight)'',
      ls_filter = ''drop-shadow(0 0 4px rgba(29, 78, 216, 0.5))'', ls_sampled = True\<rparr>"

definition dimmedLinkStyle :: link_style where
  "dimmedLinkStyle =
     \<lparr>ls_stroke = ''#94a3b8'', ls_stroke_width = 1, ls_opacity = 0.3,
      ls_marker_end = ''url(#arrowhead)'', ls_filter = ''none'', ls_sampled = False\<rparr>"

definition resetLinkStyle :: link_style where
  "resetLinkStyle =
     \<lparr>ls_stroke = ''#94a3b8'', ls_stroke_width = 2, ls_opacity = 1,
      ls_marker_end = ''url(#arrowhead)'', ls_filter = ''none'', ls_sampled = False\<rparr>"

text \<open>
  The second pass over the lines reads the ends from the datum \<open>d\<close> of the line, taking
  the \<open>id\<close> of an end that is a node object.
\<close>

definition isHighlightedLink :: "string list \<Rightarrow> glink \<Rightarrow> bool" where
  "isHighlightedLink conn d =
     (let sourceId = end_id (l_source d);
          targetId = end_id (l_target d);
          linkId1 = pairId sourceId targetId;
          linkId2 = pairId targetId sourceId
      in linkId1 \<in> set conn \<or> linkId2 \<in> set conn)"

definition isSampledNode :: "string list \<Rightarrow> gnode \<Rightarrow> bool" where
  "isSampledNode ids d = (n_id d \<in> set ids \<or> n_name d \<in> set ids)"

text \<open>
  \<open>highlightSampledGraph\<close>, called on the store \<open>gr\<close> and the elements \<open>dsp\<close>: every
  element is first reset, then restyled by its class. The two passes over the circles,
  and the two over the lines, each set all six properties, so the second pass alone
  determines the result.
\<close>

definition highlightNode :: "string list \<Rightarrow> gnode \<times> node_style \<Rightarrow> gnode \<times> node_style" where
  "highlightNode ids el =
     (let d = fst el;
          afterReset = resetNodeStyle d
      in (d, if isSampledNode ids d
             then afterReset\<lparr>ns_fill := ''#3b82f6'', ns_stroke := ''#1d4ed8'',
                    ns_stroke_width := 4, ns_opacity := 1,
                    ns_filter := ''drop-shadow(0 0 8px rgba(59, 130, 246, 0.6))'',
                    ns_sampled := True\<rparr>
             else afterReset\<lparr>ns_fill := getNodeColor d, ns_stroke := ''#6b7280'',
                    ns_stroke_width := 1, ns_opacity := 0.4, ns_filter := ''none'',
                    ns_sampled := False\<rparr>))"

definition highlightLink :: "string list \<Rightarrow> glink \<times> link_style \<Rightarrow> glink \<times> link_style" where
  "highlightLink conn el =
     (let d = fst el;
          afterReset = resetLinkStyle
      in (d, if isHighlightedLink conn d
             then afterReset\<lparr>ls_stroke := ''#1d4ed8'', ls_stroke_width := 4, ls_opacity := 1,
                    ls_marker_end := ''url(#arrowhead-highlight)'',
                    ls_filter := ''drop-shadow(0 0 4px rgba(29, 78, 216, 0.5))'',
                    ls_sampled := True\<rparr>
             else afterReset\<lparr>ls_stroke := ''#94a3b8'', ls_stroke_width := 1, ls_opacity := 0.3,
                    ls_marker_end := ''url(#arrowhead)'', ls_filter := ''none'',
                    ls_sampled := False\<rparr>))"

definition highlightSampledGraph ::
  "env \<Rightarrow> graph \<Rightarrow> sampled_node list \<Rightarrow> sampled_link list \<Rightarrow> display \<Rightarrow> display" where
  "highlightSampledGraph ev gr sampledNodes sampledLinks dsp =
     (if \<not> initialised ev then dsp
      else
        \<lparr>node_groups = map (highlightNode (sampledNodeIds sampledNodes)) (node_groups dsp),
         link_lines = map (highlightLink (connectedLinkIds gr sampledNodes sampledLinks))
                        (link_lines dsp)\<rparr>)"

subsection \<open>The manual fit: fitView\<close>

text \<open>
  The class attribute of the elements inside \<open>g\<close>. \<open>renderCurrentGraph\<close> creates the
  groups with class \<open>node-group\<close>, the lines with class \<open>link\<close> and one label per line
  with class \<open>link-label\<close>; the overlay adds and removes the class \<open>sampled\<close> on groups
  and lines. The circle and the text inside a group have no class. No other statement of
  the page sets a class on an element inside \<open>g\<close>.
\<close>

definition groupClasses :: "node_style \<Rightarrow> string list" where
  "groupClasses st = ''node-group'' # (if ns_sampled st then [''sampled''] else [])"

definition lineClasses :: "link_style \<Rightarrow> string list" where
  "lineClasses st = ''link'' # (if ls_sampled st then [''sampled''] else [])"

definition labelClasses :: "string list" where
  "labelClasses = [''link-label'']"

text \<open>
  \<open>g.selectAll('.' + cls).data()\<close>: the data bound to the elements that have the class,
  as far as \<open>fitView\<close> reads them: the coordinates \<open>(d.x, d.y)\<close> of a node, and
  \<open>None\<close> for a link, which has neither property.
\<close>

definition selectAll :: "string \<Rightarrow> display \<Rightarrow> (real \<times> real) option list" where
  "selectAll cls dsp =
     map (\<lambda>el. Some (n_x (fst el), n_y (fst el)))
       (filter (\<lambda>el. cls \<in> set (groupClasses (snd el))) (node_groups dsp)) @
     map (\<lambda>el. None) (filter (\<lambda>el. cls \<in> set (lineClasses (snd el))) (link_lines dsp)) @
     map (\<lambda>el. None) (filter (\<lambda>el. cls \<in> set labelClasses) (link_lines dsp))"

record zoom_transform =
  t_scale :: real
  t_x :: real
  t_y :: real

text \<open>
  \<open>fitView\<close> works on the data of the elements of class \<open>node\<close> inside \<open>g\<close>.
  \<open>d3.extent\<close> skips the data without the coordinate and yields \<open>undefined\<close> bounds
  when none is left. The result is \<open>None\<close> when the function returns without a
  transform: nothing selected, or a bound that is \<open>undefined\<close> or 0 and so falsy.
\<close>

definition fitView :: "env \<Rightarrow> display \<Rightarrow> zoom_transform option" where
  "fitView ev dsp =
     (if \<not> initialised ev then None
      else if selectAll ''node'' dsp = [] then None
      else
        (let sel = List.map_filter (\<lambda>d. d) (selectAll ''node'' dsp)
         in if sel = [] then None
            else
              (let x0 = low (map fst sel); x1 = high (map fst sel);
                   y0 = low (map snd sel); y1 = high (map snd sel)
               in if x0 = 0 \<or> x1 = 0 \<or> y0 = 0 \<or> y1 = 0 then None
                  else
                    (let padding = 100;
                         graphWidth = max (x1 - x0) 200 + padding * 2;
                         graphHeight = max (y1 - y0) 200 + padding * 2;
                         scale = min (min (real (clientWidth ev) / graphWidth)
                                          (real (clientHeight ev) / graphHeight)) 1.5
                     in Some \<lparr>t_scale = scale,
                              t_x = real (clientWidth ev) / 2 - (x0 + x1) / 2 * scale,
                              t_y = real (clientHeight ev) / 2 - (y0 + y1) / 2 * scale\<rparr>))))"

section \<open>Link resolution of the multi-run preview (runs\_qa\_generation.js, drawGraph)\<close>

text \<open>
  The nodes \<open>drawGraph\<close> builds from the entities (\<open>id\<close>, \<open>name\<close> and the entity's own
  id as \<open>originalId\<close>; their random start coordinates play no part in the resolution)
  and a raw relationship with the endpoint and label aliases the code reads.
\<close>

record preview_node =
  pn_id :: string
  pn_name :: string
  pn_originalId :: "string option"

record relationship =
  rel_source :: "string option"
  rel_source_name :: "string option"
  rel_head :: "string option"
  rel_from :: "string option"
  rel_subject :: "string option"
  rel_target :: "string option"
  rel_target_name :: "string option"
  rel_tail :: "string option"
  rel_to :: "string option"
  rel_object :: "string option"
  rel_relation :: "string option"
  rel_relationship :: "string option"
  rel_type :: "string option"
  rel_label :: "string option"

text \<open>
  The lookup object \<open>nameToId\<close> is a plain object \<open>{}\<close>. Reading a key that is not an
  own property gives what \<open>Object.prototype\<close> has under that key: a function for eleven
  names, the prototype itself for \<open>__proto__\<close>. These twelve values are objects, so they
  are truthy and each is identical to itself only. A value read from the lookup object
  is therefore the id of a node or one of these inherited values, given here by its key.
\<close>

datatype endpoint = NodeId string | Inherited string

definition objectPrototypeKeys :: "string list" where
  "objectPrototypeKeys =
     [''constructor'', ''hasOwnProperty'', ''isPrototypeOf'', ''propertyIsEnumerable'',
      ''toLocaleString'', ''toString'', ''valueOf'', ''__proto__'', ''__defineGetter__'',
      ''__defineSetter__'', ''__lookupGetter__'', ''__lookupSetter__'']"

text \<open>
  A link as \<open>drawGraph\<close> pushes it. \<open>pl_originalRelation\<close> is \<open>None\<close> on a link of the
  chain fallback, which has no such property.
\<close>

record preview_link =
  pl_source :: endpoint
  pl_target :: endpoint
  pl_source_id :: endpoint
  pl_target_id :: endpoint
  pl_relation :: string
  pl_id :: string
  pl_originalRelation :: "relationship option"

text \<open>
  The own properties of \<open>nameToId\<close>: later nodes overwrite earlier keys. The assignment
  \<open>nameToId[key] = id\<close> creates no own property when the key is \<open>__proto__\<close>: it calls
  the inherited setter, which ignores a string.
\<close>

definition setName :: "string \<Rightarrow> string \<Rightarrow> (string \<rightharpoonup> string) \<Rightarrow> (string \<rightharpoonup> string)" where
  "setName key ident m = (if key = ''__proto__'' then m else m(key \<mapsto> ident))"

definition addNames :: "preview_node \<Rightarrow> (string \<rightharpoonup> string) \<Rightarrow> (string \<rightharpoonup> string)" where
  "addNames node m =
     (let m1 = setName (pn_id node) (pn_id node) m;
          m2 = setName (pn_name node) (pn_id node) m1
      in case pn_originalId node of
           None \<Rightarrow> m2
         | Some orig \<Rightarrow> if orig = [] then m2 else setName orig (pn_id node) m2)"

definition ownNames :: "preview_node list \<Rightarrow> (string \<rightharpoonup> string)" where
  "ownNames ns = fold addNames ns Map.empty"

text \<open>\<open>nameToId[key]\<close>: the own property, else the inherited one, else \<open>undefined\<close>.\<close>

definition nameToId :: "preview_node list \<Rightarrow> string \<Rightarrow> endpoint option" where
  "nameToId ns key =
     (case ownNames ns key of
        Some ident \<Rightarrow> Some (NodeId ident)
      | None \<Rightarrow> if key \<in> set objectPrototypeKeys then Some (Inherited key) else None)"

definition truthyEnd :: "endpoint option \<Rightarrow> bool" where
  "truthyEnd v =
     (case v of None \<Rightarrow> False | Some (NodeId s) \<Rightarrow> s \<noteq> [] | Some (Inherited k) \<Rightarrow> True)"

definition fuzzyMatch :: "string \<Rightarrow> preview_node \<Rightarrow> bool" where
  "fuzzyMatch key n =
     (str_includes (pn_name n) key \<or> str_includes key (pn_name n) \<or>
      pn_id n = key \<or> pn_originalId n = Some key)"

text \<open>
  One endpoint: the exact lookup, and the substring fallback when it gives nothing
  (\<open>null\<close> when no node matches).
\<close>

definition resolveEndpoint :: "preview_node list \<Rightarrow> string \<Rightarrow> endpoint option" where
  "resolveEndpoint ns key =
     (let exact = nameToId ns key
      in if \<not> truthyEnd exact
         then (case findIndex (fuzzyMatch key) ns of
                 None \<Rightarrow> None
               | Some i \<Rightarrow> Some (NodeId (pn_id (ns ! i))))
         else exact)"

definition sourceKey :: "relationship \<Rightarrow> string option" where
  "sourceKey rel =
     js_or (js_or (js_or (js_or (rel_source rel) (rel_source_name rel)) (rel_head rel))
                  (rel_from rel)) (rel_subject rel)"

definition targetKey :: "relationship \<Rightarrow> string option" where
  "targetKey rel =
     js_or (js_or (js_or (js_or (rel_target rel) (rel_target_name rel)) (rel_tail rel))
                  (rel_to rel)) (rel_object rel)"

text \<open>
  An endpoint inside a template literal. How the runtime prints an inherited function
  is its own matter; \<open>inherited\<close> gives that text by the key.
\<close>

definition endpoint_text :: "(string \<Rightarrow> string) \<Rightarrow> endpoint \<Rightarrow> string" where
  "endpoint_text inherited e = (case e of NodeId s \<Rightarrow> s | Inherited k \<Rightarrow> inherited k)"

text \<open>The body of \<open>relationships.forEach\<close>: the link it pushes, if it pushes one.\<close>

definition resolveRelationship ::
  "(string \<Rightarrow> string) \<Rightarrow> preview_node list \<Rightarrow> relationship \<Rightarrow> preview_link option" where
  "resolveRelationship inherited ns rel =
     (case (sourceKey rel, targetKey rel) of
        (Some sk, Some tk) \<Rightarrow>
          if sk = [] \<or> tk = [] then None
          else
            (case (resolveEndpoint ns sk, resolveEndpoint ns tk) of
               (Some sourceId, Some targetId) \<Rightarrow>
                 if truthyEnd (Some sourceId) \<and> truthyEnd (Some targetId) \<and> sourceId \<noteq> targetId
                 then Some \<lparr>pl_source = sourceId, pl_target = targetId,
                            pl_source_id = sourceId, pl_target_id = targetId,
                            pl_relation = template (js_or (js_or (js_or (js_or (rel_relation rel)
                                (rel_relationship rel)) (rel_type rel)) (rel_label rel))
                                (Some ''related'')),
                            pl_id = endpoint_text inherited sourceId @ ''-'' @
                                    endpoint_text inherited targetId @ ''-'' @
                                    or_default (rel_relation rel) ''related'',
                            pl_originalRelation = Some rel\<rparr>
                 else None
             | _ \<Rightarrow> None)
      | _ \<Rightarrow> None)"

definition resolveLinks ::
  "(string \<Rightarrow> string) \<Rightarrow> preview_node list \<Rightarrow> relationship list \<Rightarrow> preview_link list" where
  "resolveLinks inherited ns rels = List.map_filter (resolveRelationship inherited ns) rels"

text \<open>The links of the demonstration chain: node \<open>i\<close> to node \<open>i + 1\<close>.\<close>

definition chainLink :: "preview_node list \<Rightarrow> nat \<Rightarrow> preview_link" where
  "chainLink ns i =
     \<lparr>pl_source = NodeId (pn_id (ns ! i)), pl_target = NodeId (pn_id (ns ! (i + 1))),
      pl_source_id = NodeId (pn_id (ns ! i)), pl_target_id = NodeId (pn_id (ns ! (i + 1))),
      pl_relation = ''related'',
      pl_id = pn_id (ns ! i) @ ''-'' @ pn_id (ns ! (i + 1)) @ ''-related'',
      pl_originalRelation = None\<rparr>"

definition chainLinks :: "preview_node list \<Rightarrow> preview_link list" where
  "chainLinks ns = map (chainLink ns) [0..<min (length ns - 1) 10]"

text \<open>
  The links \<open>drawGraph\<close> draws, and whether they are the fabricated chain (the page then
  labels the link count and the examples as generated for demonstration).
\<close>

definition drawGraphLinks ::
  "(string \<Rightarrow> string) \<Rightarrow> preview_node list \<Rightarrow> relationship list \<Rightarrow> preview_link list \<times> bool" where
  "drawGraphLinks inherited ns rels =
     (let ls = resolveLinks inherited ns rels
      in if ls = [] \<and> length ns > 1 then (ls @ chainLinks ns, True) else (ls, False))"

section \<open>Example inputs\<close>

text \<open>
  The white space and line terminator code units below 256, and a \<open>trim\<close> that strips
  them from both ends, as \<open>String.prototype.trim\<close> does on a string of such code units.
\<close>

definition is_space :: "char \<Rightarrow> bool" where
  "is_space c =
     (c \<in> set [CHR 0x09, CHR 0x0A, CHR 0x0B, CHR 0x0C, CHR 0x0D, CHR 0x20, CHR 0xA0])"

definition trimSpaces :: "string \<Rightarrow> string" where
  "trimSpaces s = rev (dropWhile is_space (rev (dropWhile is_space s)))"

text \<open>
  A page after \<open>initGraph\<close>, with a container of 1200 by 800 pixels, on which
  \<open>Math.random()\<close> returns 0.25 and 0.75 in turn.
\<close>

definition page :: env where
  "page = \<lparr>initialised = True, clientWidth = 1200, clientHeight = 800,
            initial_entity = None, expansion_container = False,
            random = (\<lambda>k. if even k then 1 / 4 else 3 / 4), trim = trimSpaces\<rparr>"

definition rec :: "string \<Rightarrow> string \<Rightarrow> jsval option \<Rightarrow> node_record" where
  "rec ident nm ty =
     \<lparr>r_id = ident, r_name = nm, r_type = ty, r_description = None, r_group = None,
      r_expansion_status = None, r_expansion_order = None, r_x = None, r_y = None\<rparr>"

definition nodesOnly :: "node_record list \<Rightarrow> update_data" where
  "nodesOnly rs = \<lparr>d_nodes = Some rs, d_links = None, d_expansion_info = None\<rparr>"

definition linksOnly :: "link_record list \<Rightarrow> update_data" where
  "linksOnly ls = \<lparr>d_nodes = None, d_links = Some ls, d_expansion_info = None\<rparr>"

definition plainNode :: "string \<Rightarrow> string \<Rightarrow> real \<Rightarrow> real \<Rightarrow> gnode" where
  "plainNode ident nm x y =
     \<lparr>n_id = ident, n_name = nm, n_type = JStr ''concept'', n_description = JStr [],
      n_group = JNum 0,
      n_expansion_status = ''normal'', n_expansion_order = None, n_x = x, n_y = y\<rparr>"

text \<open>A store holding one node at (3, 4).\<close>

definition oneNode :: graph where
  "oneNode = \<lparr>nodes = [plainNode ''a'' ''A'' 3 4], links = [], rand_calls = 0\<rparr>"

text \<open>An update that changes the type and the description of node \<open>a\<close>.\<close>

definition retypeA :: update_data where
  "retypeA = nodesOnly [(rec ''a'' ''A'' (Some (JStr ''person'')))
                          \<lparr>r_description := Some (JStr ''a person'')\<rparr>]"

text \<open>One batch that carries the id \<open>a\<close> twice.\<close>

definition twiceA :: update_data where
  "twiceA = nodesOnly [rec ''a'' ''A'' (Some (JStr ''person'')),
                         rec ''a'' ''A'' (Some (JStr ''place''))]"

text \<open>
  Stores for the seed detection: the name of the first node is a substring of the name of
  the second; and a store whose second node already has expansion order 0.
\<close>

definition entityPage :: "string \<Rightarrow> env" where
  "entityPage val = page\<lparr>initial_entity := Some val\<rparr>"

definition diaNodes :: "gnode list" where
  "diaNodes = [plainNode ''x'' ''Dia'' 0 0, plainNode ''y'' ''Diabetes'' 10 0]"

definition orderedNodes :: "gnode list" where
  "orderedNodes =
     [plainNode ''a'' ''Alpha'' 0 0, (plainNode ''b'' ''Beta'' 10 0)\<lparr>n_expansion_order := Some 0\<rparr>]"

definition greekNodes :: "gnode list" where
  "greekNodes = [plainNode ''a'' ''Alpha'' 0 0, plainNode ''b'' ''Beta'' 10 0]"

text \<open>Preview nodes named by one letter each: three of them, and twelve.\<close>

definition pnode :: "char \<Rightarrow> preview_node" where
  "pnode c = \<lparr>pn_id = [c], pn_name = [c], pn_originalId = None\<rparr>"

definition threeNodes :: "preview_node list" where
  "threeNodes = map pnode ''abc''"

definition twelveNodes :: "preview_node list" where
  "twelveNodes = map pnode ''abcdefghijkl''"

text \<open>Raw link records and relationships that name only a source and a target.\<close>

definition lrec :: "string \<Rightarrow> string \<Rightarrow> link_record" where
  "lrec s t =
     \<lparr>k_source_id = None, k_source = Some s, k_target_id = None, k_target = Some t,
      k_relation = None, k_relationship = None\<rparr>"

definition rel :: "string \<Rightarrow> string \<Rightarrow> relationship" where
  "rel s t =
     \<lparr>rel_source = Some s, rel_source_name = None, rel_head = None, rel_from = None,
      rel_subject = None, rel_target = Some t, rel_target_name = None, rel_tail = None,
      rel_to = None, rel_object = None, rel_relation = None, rel_relationship = None,
      rel_type = None, rel_label = None\<rparr>"

text \<open>A store with the nodes \<open>a\<close>, \<open>b\<close>, \<open>c\<close> and the links \<open>a \<rightarrow> b\<close> and \<open>b \<rightarrow> c\<close>.\<close>

definition triGraph :: graph where
  "triGraph =
     \<lparr>nodes = [plainNode ''a'' ''A'' 0 0, plainNode ''b'' ''B'' 100 0, plainNode ''c'' ''C'' 0 100],
      links = [processLink (lrec ''a'' ''b''), processLink (lrec ''b'' ''c'')],
      rand_calls = 0\<rparr>"

text \<open>A store with a node whose id is the empty string, a node \<open>b\<close> and the link from
  \<open>b\<close> to the former.\<close>

definition emptyIdGraph :: graph where
  "emptyIdGraph =
     \<lparr>nodes = [plainNode [] ''E'' 0 0, plainNode ''b'' ''B'' 100 0],
      links = [processLink (lrec ''b'' [])], rand_calls = 0\<rparr>"

definition sampledId :: "string \<Rightarrow> sampled_node" where
  "sampledId ident = \<lparr>s_id = Some ident, s_name = None\<rparr>"

definition sampledPair :: "string \<Rightarrow> string \<Rightarrow> sampled_link" where
  "sampledPair s t =
     \<lparr>sl_source_id = None, sl_source = Some s, sl_target_id = None, sl_target = Some t\<rparr>"

text \<open>A page whose graph container is hidden and has no size.\<close>

definition hiddenPage :: env where
  "hiddenPage = page\<lparr>clientWidth := 0, clientHeight := 0\<rparr>"

text \<open>
  A batch whose one record has the empty string as its type, and one whose record has
  \<open>null\<close> as its description and as its group.
\<close>

definition untypedA :: update_data where
  "untypedA = nodesOnly [rec ''a'' ''A'' (Some (JStr []))]"

definition nullA :: update_data where
  "nullA = nodesOnly [(rec ''a'' ''A'' (Some (JStr ''person'')))
                        \<lparr>r_description := Some JNull, r_group := Some JNull\<rparr>]"

text \<open>A batch that creates \<open>b\<close>, retypes \<open>a\<close> and links the two; and one that has two
  records for \<open>a\<close>, the second with \<open>null\<close> as group.\<close>

definition growAB :: update_data where
  "growAB = \<lparr>d_nodes = Some [rec ''b'' ''B'' None, rec ''a'' ''A'' (Some (JStr ''person''))],
             d_links = Some [lrec ''a'' ''b''], d_expansion_info = None\<rparr>"

definition againAB :: update_data where
  "againAB = \<lparr>d_nodes = Some [rec ''a'' ''A'' (Some (JStr ''person'')), rec ''b'' ''B'' None,
                                (rec ''a'' ''A'' (Some (JStr ''place'')))\<lparr>r_group := Some JNull\<rparr>],
              d_links = Some [lrec ''a'' ''b''], d_expansion_info = None\<rparr>"

section \<open>Auxiliary notions\<close>

text \<open>Two nodes with the same id at the same place, and a node list that extends
  another one without moving or renaming any of its nodes.\<close>

definition same_place :: "gnode \<Rightarrow> gnode \<Rightarrow> bool" where
  "same_place a b = (n_id a = n_id b \<and> n_x a = n_x b \<and> n_y a = n_y b)"

definition keeps :: "gnode list \<Rightarrow> gnode list \<Rightarrow> bool" where
  "keeps ns ns' = (length ns \<le> length ns' \<and> (\<forall>i<length ns. same_place (ns ! i) (ns' ! i)))"

text \<open>
  A value that the creation of a node keeps when the record carries it (\<open>v || d\<close> gives
  \<open>v\<close>: the value is truthy, or it is the default \<open>d\<close> itself), and a record all of
  whose \<open>type\<close>, \<open>description\<close> and \<open>group\<close> are kept. The node records of a payload,
  and the ids, in the order of the batch, of those of its records whose node the store
  does not hold yet; the update of the first node that has the id of a record (the branch
  of the merge for a known id); a node without its expansion marks; the updates of a
  node by a list of records, one after the other; the records of a list that update the
  node at index \<open>j\<close>; and a list in which every node is either as in \<open>ps\<close> or as after the
  self-heal pass on \<open>ps\<close>.
\<close>

definition kept :: "jsval \<Rightarrow> jsval option \<Rightarrow> bool" where
  "kept d v = (case v of None \<Rightarrow> True | Some x \<Rightarrow> truthyVal x \<or> x = d)"

definition keptByDefaults :: "node_record \<Rightarrow> bool" where
  "keptByDefaults r =
     (kept (JStr ''concept'') (r_type r) \<and> kept (JStr []) (r_description r) \<and>
      kept (JNum 0) (r_group r))"

definition batchRecords :: "update_data \<Rightarrow> node_record list" where
  "batchRecords data = (case d_nodes data of None \<Rightarrow> [] | Some rs \<Rightarrow> rs)"

definition newIds :: "graph \<Rightarrow> update_data \<Rightarrow> string list" where
  "newIds gr data =
     filter (\<lambda>i. i \<notin> set (map n_id (nodes gr))) (map r_id (batchRecords data))"

definition updFirst :: "node_record \<Rightarrow> gnode list \<Rightarrow> gnode list" where
  "updFirst r ns =
     (case findIndex (\<lambda>n. n_id n = r_id r) ns of
        None \<Rightarrow> ns
      | Some i \<Rightarrow> ns[i := assignNode (ns ! i) r])"

definition unmarked :: "gnode \<Rightarrow> gnode" where
  "unmarked n = n\<lparr>n_expansion_status := [], n_expansion_order := None\<rparr>"

definition assignAll :: "node_record list \<Rightarrow> gnode \<Rightarrow> gnode" where
  "assignAll rs n = fold (\<lambda>r n. assignNode n r) rs n"

definition hits :: "node_record list \<Rightarrow> gnode list \<Rightarrow> nat \<Rightarrow> node_record list" where
  "hits rs ns j = filter (\<lambda>r. findIndex (\<lambda>n. n_id n = r_id r) ns = Some j) rs"

definition between :: "env \<Rightarrow> gnode list \<Rightarrow> gnode list \<Rightarrow> bool" where
  "between ev ps qs =
     (length qs = length ps \<and>
      (\<forall>j<length ps. qs ! j = ps ! j \<or> qs ! j = ensureInitialNodeExpansionStatus ev ps ! j))"


text \<open>
  The bounding box of the node circles, in the words of the specification: the least
  and the greatest coordinate any circle reaches, and the size of the box once it is
  expanded by the margin of 100 on each side.
\<close>

definition circle_left :: "graph \<Rightarrow> real" where
  "circle_left gr = Min ((\<lambda>n. n_x n - real (getNodeRadius (links gr) n)) ` set (nodes gr))"

definition circle_right :: "graph \<Rightarrow> real" where
  "circle_right gr = Max ((\<lambda>n. n_x n + real (getNodeRadius (links gr) n)) ` set (nodes gr))"

definition circle_top :: "graph \<Rightarrow> real" where
  "circle_top gr = Min ((\<lambda>n. n_y n - real (getNodeRadius (links gr) n)) ` set (nodes gr))"

definition circle_bottom :: "graph \<Rightarrow> real" where
  "circle_bottom gr = Max ((\<lambda>n. n_y n + real (getNodeRadius (links gr) n)) ` set (nodes gr))"

definition box_width :: "graph \<Rightarrow> real" where
  "box_width gr = circle_right gr - circle_left gr + 200"

definition box_height :: "graph \<Rightarrow> real" where
  "box_height gr = circle_bottom gr - circle_top gr + 200"

text \<open>
  The scale at which the svg shows a view box in the container: with
  \<open>preserveAspectRatio = xMidYMid meet\<close>, which \<open>adjustViewBox\<close> sets with the view
  box, the browser scales the box uniformly by the smaller of the two ratios and centres
  it.
\<close>

definition shown_scale :: "env \<Rightarrow> viewbox \<Rightarrow> real" where
  "shown_scale ev vb =
     min (real (clientWidth ev) / vb_width vb) (real (clientHeight ev) / vb_height vb)"

section \<open>Properties of the merge\<close>

lemmas merge_eval =
  updateGraph_def healStage_def linkStage_def nodeStage_def expansionStage_def
  incomingNodes_def updateNodes_def updateLinks_def mergeNode_def assignNode_def newNode_def
  createPositionedNode_def processLink_def markExpansion_def
  ensureInitialNodeExpansionStatus_def findInitialNode_def promote_def healOrder_def
  is_normal_def matchesEntity_def or_default_def js_or_def truthy_def template_def
  val_or_def truthyVal_def toEnd_def end_or_def end_text_def end_id_def renderStage_def
  validLink_def hasNode_def bindLink_def nodeOf_def trimSpaces_def is_space_def
  placement_draws_def Let_def

lemmas example_defs =
  page_def rec_def nodesOnly_def linksOnly_def plainNode_def oneNode_def emptyGraph_def
  retypeA_def twiceA_def entityPage_def diaNodes_def orderedNodes_def
  greekNodes_def untypedA_def nullA_def growAB_def againAB_def hiddenPage_def triGraph_def
  emptyIdGraph_def sampledId_def sampledPair_def lrec_def rel_def pnode_def threeNodes_def
  twelveNodes_def

lemma findIndex_Some:
  "findIndex p xs = Some i \<Longrightarrow> i < length xs \<and> p (xs ! i) \<and> (\<forall>j<i. \<not> p (xs ! j))"
proof (induction xs arbitrary: i)
  case Nil
  then show ?case by simp
next
  case (Cons x xs)
  show ?case
  proof (cases "p x")
    case True
    with Cons.prems show ?thesis by simp
  next
    case False
    with Cons.prems obtain k where k: "findIndex p xs = Some k" "i = Suc k"
      by (auto split: option.splits)
    from Cons.IH[OF k(1)] False k(2) show ?thesis
      by (auto simp: nth_Cons split: nat.splits)
  qed
qed

lemma findIndex_None: "findIndex p xs = None \<longleftrightarrow> (\<forall>x\<in>set xs. \<not> p x)"
  by (induction xs) (auto split: option.splits)

lemma keeps_refl: "keeps ns ns" by (simp add: keeps_def same_place_def)

lemma keeps_trans: "keeps a b \<Longrightarrow> keeps b c \<Longrightarrow> keeps a c"
  by (fastforce simp: keeps_def same_place_def)

lemma same_place_healOrder: "same_place n (healOrder n)"
  by (simp add: same_place_def healOrder_def split: option.splits)

lemma same_place_promote: "same_place n (promote n)"
  by (simp add: same_place_def promote_def)

lemma keeps_ensure: "keeps ns (ensureInitialNodeExpansionStatus ev ns)"
proof (cases "findInitialNode ev ns")
  case None
  then show ?thesis by (simp add: ensureInitialNodeExpansionStatus_def keeps_refl)
next
  case (Some i)
  have "same_place (ns ! j) (healOrder (ns[i := promote (ns ! i)] ! j))" if "j < length ns" for j
    using that same_place_healOrder[of "promote (ns ! i)"] same_place_promote[of "ns ! i"]
      same_place_healOrder[of "ns ! j"]
    by (cases "j = i") (auto simp: same_place_def)
  then show ?thesis using Some
    by (simp add: ensureInitialNodeExpansionStatus_def keeps_def)
qed

lemma keeps_mergeNode: "keeps (nodes gr) (nodes (mergeNode ev ex r gr))"
proof (cases "r_id r \<notin> set ex")
  case True
  then show ?thesis by (simp add: mergeNode_def Let_def keeps_def same_place_def nth_append)
next
  case False
  show ?thesis
  proof (cases "findIndex (\<lambda>n. n_id n = r_id r) (nodes gr)")
    case None
    with False show ?thesis by (simp add: mergeNode_def keeps_refl)
  next
    case (Some i)
    from findIndex_Some[OF Some] have i: "i < length (nodes gr)" "n_id (nodes gr ! i) = r_id r"
      by auto
    have "same_place (nodes gr ! j) ((nodes gr)[i := assignNode (nodes gr ! i) r] ! j)"
      if "j < length (nodes gr)" for j
      using that i by (cases "j = i") (auto simp: same_place_def assignNode_def)
    with False Some show ?thesis by (simp add: mergeNode_def keeps_def)
  qed
qed

lemma keeps_mergeNodes: "keeps (nodes gr) (nodes (mergeNodes ev ex rs gr))"
proof (induction rs arbitrary: gr)
  case Nil
  then show ?case by (simp add: keeps_refl)
next
  case (Cons r rs)
  show ?case using keeps_trans[OF keeps_mergeNode Cons.IH] by simp
qed

lemma nodes_updateLinks: "nodes (updateLinks inc ls gr) = nodes gr"
  by (simp add: updateLinks_def Let_def)

lemma nodes_renderStage: "nodes (renderStage gr) = nodes gr"
  by (simp add: renderStage_def)

lemma keeps_updateGraph: "keeps (nodes gr) (nodes (updateGraph ev gr data True))"
proof (cases "initialised ev")
  case False
  then show ?thesis by (simp add: updateGraph_def keeps_refl)
next
  case True
  define g1 where "g1 = expansionStage ev data gr"
  define g2 where "g2 = nodeStage ev True data g1"
  define g3 where "g3 = linkStage True data g2"
  have r: "nodes (updateGraph ev gr data True) = ensureInitialNodeExpansionStatus ev (nodes g3)"
    using True
    by (simp add: updateGraph_def nodes_renderStage healStage_def g1_def g2_def g3_def)
  have k1: "keeps (nodes gr) (nodes g1)"
    by (simp add: g1_def expansionStage_def keeps_refl keeps_ensure split: option.splits)
  have k2: "keeps (nodes g1) (nodes g2)"
    by (simp add: g2_def nodeStage_def keeps_refl updateNodes_def keeps_mergeNodes split: option.splits)
  have k3: "nodes g3 = nodes g2"
    by (simp add: g3_def linkStage_def nodes_updateLinks split: option.splits)
  have k4: "keeps (nodes g2) (ensureInitialNodeExpansionStatus ev (nodes g3))"
    unfolding k3 by (rule keeps_ensure)
  show ?thesis
    unfolding r by (rule keeps_trans[OF keeps_trans[OF k1 k2] k4])
qed

text \<open>
  Claim C3 (position stability under merge). For every node already present in the
  store, an incremental update leaves the node where it is: the node at each index of
  the old store is, after \<open>updateGraph(data, true)\<close>, still the node of that id at the
  same \<open>x\<close> and \<open>y\<close>, whatever the incoming records change (type, description or any
  other attribute), and whether or not the update carries expansion information or
  links. A merge never resets a position.
\<close>

theorem merge_keeps_position:
  assumes "i < length (nodes gr)"
  shows "n_id (nodes (updateGraph ev gr data True) ! i) = n_id (nodes gr ! i) \<and>
         n_x (nodes (updateGraph ev gr data True) ! i) = n_x (nodes gr ! i) \<and>
         n_y (nodes (updateGraph ev gr data True) ! i) = n_y (nodes gr ! i)"
  using keeps_updateGraph[of gr ev data] assms by (auto simp: keeps_def same_place_def)

theorem merge_keeps_position_witness:
  "0 < length (nodes oneNode) \<and>
   n_type (nodes (updateGraph page oneNode retypeA True) ! 0) = JStr ''person'' \<and>
   n_description (nodes (updateGraph page oneNode retypeA True) ! 0) = JStr ''a person'' \<and>
   n_x (nodes (updateGraph page oneNode retypeA True) ! 0) = 3 \<and>
   n_y (nodes (updateGraph page oneNode retypeA True) ! 0) = 4"
proof -
  have pos: "0 < length (nodes oneNode)"
    by (simp add: oneNode_def)
  have attrs: "n_type (nodes (updateGraph page oneNode retypeA True) ! 0) = JStr ''person'' \<and>
      n_description (nodes (updateGraph page oneNode retypeA True) ! 0) = JStr ''a person''"
    by (simp add: merge_eval example_defs)
  have "n_x (nodes oneNode ! 0) = 3" "n_y (nodes oneNode ! 0) = 4"
    by (simp_all add: oneNode_def plainNode_def)
  with merge_keeps_position[OF pos, of page retypeA] pos attrs show ?thesis
    by simp
qed

text \<open>
  Claim C2 (identity uniqueness). The set of known ids is computed once, before the
  loop over the incoming records, and is not extended when a node is pushed. A batch
  that carries a new id twice therefore creates two nodes of that id: starting from the
  empty store, one incremental update with the records \<open>a\<close>, \<open>a\<close> leaves two nodes
  whose id is \<open>a\<close>.
\<close>

theorem duplicate_id_in_one_batch:
  "map n_id (nodes (updateGraph page emptyGraph twiceA True)) = [''a'', ''a'']"
  by (simp add: merge_eval example_defs)

section \<open>Seed detection\<close>

lemma findIndex_first:
  "i < length xs \<Longrightarrow> p (xs ! i) \<Longrightarrow> \<forall>j<i. \<not> p (xs ! j) \<Longrightarrow> findIndex p xs = Some i"
proof (induction xs arbitrary: i)
  case Nil
  then show ?case by simp
next
  case (Cons x xs)
  show ?case
  proof (cases i)
    case 0
    with Cons.prems show ?thesis by simp
  next
    case (Suc k)
    with Cons.prems have "\<not> p x" by auto
    moreover have "findIndex p xs = Some k"
      using Cons.prems Suc by (intro Cons.IH) auto
    ultimately show ?thesis using Suc by simp
  qed
qed

lemma healOrder_healed:
  "n_expansion_order (healOrder n) = Some k \<Longrightarrow> 0 \<le> k \<Longrightarrow> \<not> is_normal (healOrder n)"
  by (auto simp: healOrder_def is_normal_def split: option.splits if_splits)

lemma heal_all_ordered:
  assumes "n \<in> set (ensureInitialNodeExpansionStatus ev ns)"
    and "n_expansion_order n = Some k" and "0 \<le> k"
  shows "\<not> is_normal n"
proof (cases "findInitialNode ev ns")
  case None
  then have "ns = []"
    by (auto simp: findInitialNode_def split: if_splits option.splits)
  with assms None show ?thesis by (simp add: ensureInitialNodeExpansionStatus_def)
next
  case (Some i)
  with assms(1) obtain m where "n = healOrder m"
    by (auto simp: ensureInitialNodeExpansionStatus_def)
  with assms(2,3) show ?thesis using healOrder_healed by blast
qed

text \<open>
  Claim C6 (seed promotion), as the code has it. \<open>findInitialNode\<close> looks first for a
  node of expansion order 0, then for the first node of the store that matches the
  trimmed value of the \<open>initial-entity\<close> input (equal name, equal id, or one name
  containing the other), then takes the first node. So: when no node has expansion
  order 0, the trimmed input is not empty, and node \<open>i\<close> is the first node that matches
  it and is not yet marked, the self-heal pass leaves node \<open>i\<close> with status
  \<open>expansion\<close> and order 0. Moreover, whatever the store and the input, after the pass
  every node with a numeric expansion order of at least 0 has a status other than
  \<open>normal\<close>.
\<close>

theorem seed_promotion:
  assumes noSeed: "\<forall>n\<in>set ns. n_expansion_order n \<noteq> Some 0"
    and entity: "initial_entity ev = Some val" "trim ev val \<noteq> []"
    and first: "i < length ns" "matchesEntity (trim ev val) (ns ! i)"
      "\<forall>j<i. \<not> matchesEntity (trim ev val) (ns ! j)"
    and normal: "is_normal (ns ! i)"
  shows "n_expansion_status (ensureInitialNodeExpansionStatus ev ns ! i) = ''expansion'' \<and>
         n_expansion_order (ensureInitialNodeExpansionStatus ev ns ! i) = Some 0 \<and>
         (\<forall>n\<in>set (ensureInitialNodeExpansionStatus ev ns).
            \<forall>k. n_expansion_order n = Some k \<and> 0 \<le> k \<longrightarrow> \<not> is_normal n)"
proof -
  have "findIndex (\<lambda>node. n_expansion_order node = Some 0) ns = None"
    using noSeed by (simp add: findIndex_None)
  moreover have "findIndex (matchesEntity (trim ev val)) ns = Some i"
    using first by (rule findIndex_first)
  moreover have "ns \<noteq> []" using first(1) by auto
  ultimately have fi: "findInitialNode ev ns = Some i"
    using entity by (simp add: findInitialNode_def)
  have "ensureInitialNodeExpansionStatus ev ns ! i = healOrder (promote (ns ! i))"
    using fi first(1) by (simp add: ensureInitialNodeExpansionStatus_def)
  also have "\<dots> = (ns ! i)\<lparr>n_expansion_status := ''expansion'', n_expansion_order := Some 0\<rparr>"
    using normal by (simp add: promote_def healOrder_def is_normal_def)
  finally have "n_expansion_status (ensureInitialNodeExpansionStatus ev ns ! i) = ''expansion''"
    "n_expansion_order (ensureInitialNodeExpansionStatus ev ns ! i) = Some 0"
    by simp_all
  then show ?thesis using heal_all_ordered by blast
qed

theorem seed_promotion_witness:
  "map n_expansion_status (ensureInitialNodeExpansionStatus (entityPage '' Beta '') greekNodes)
     = [''normal'', ''expansion''] \<and>
   n_expansion_order (ensureInitialNodeExpansionStatus (entityPage '' Beta '') greekNodes ! 1) = Some 0"
proof -
  have t: "trim (entityPage '' Beta '') '' Beta '' = ''Beta''"
    by (simp add: entityPage_def page_def trimSpaces_def is_space_def)
  have h: "\<forall>n\<in>set greekNodes. n_expansion_order n \<noteq> Some 0"
    "initial_entity (entityPage '' Beta '') = Some '' Beta ''"
    "trim (entityPage '' Beta '') '' Beta '' \<noteq> []"
    "1 < length greekNodes"
    "matchesEntity (trim (entityPage '' Beta '') '' Beta '') (greekNodes ! 1)"
    "\<forall>j<1. \<not> matchesEntity (trim (entityPage '' Beta '') '' Beta '') (greekNodes ! j)"
    "is_normal (greekNodes ! 1)"
    unfolding t by (simp_all add: example_defs matchesEntity_def is_normal_def)
  have "n_expansion_status (ensureInitialNodeExpansionStatus (entityPage '' Beta '') greekNodes ! 0)
      = ''normal''"
    "length (ensureInitialNodeExpansionStatus (entityPage '' Beta '') greekNodes) = 2"
    using t by (simp_all add: merge_eval example_defs)
  with seed_promotion[OF h] show ?thesis
    by (simp add: list_eq_iff_nth_eq less_Suc_eq numeral_2_eq_2)
qed

text \<open>
  The claim as stated fails: in a store where no node is marked, the node whose name
  equals the input stays \<open>normal\<close> when an earlier node matches the input by
  containment (\<open>Dia\<close> before \<open>Diabetes\<close>), and when another node has expansion
  order 0.
\<close>

theorem seed_promotion_counterexample:
  "map n_name diaNodes = [''Dia'', ''Diabetes''] \<and>
   map n_expansion_status diaNodes = [''normal'', ''normal''] \<and>
   map n_expansion_status (ensureInitialNodeExpansionStatus (entityPage ''Diabetes'') diaNodes)
     = [''expansion'', ''normal''] \<and>
   map n_name orderedNodes = [''Alpha'', ''Beta''] \<and>
   map n_expansion_status orderedNodes = [''normal'', ''normal''] \<and>
   map n_expansion_status (ensureInitialNodeExpansionStatus (entityPage ''Alpha'') orderedNodes)
     = [''normal'', ''expansion'']"
  by (simp add: merge_eval example_defs)

section \<open>The demonstration chain of the preview\<close>

lemma length_chainLinks: "length (chainLinks ns) = min (length ns - 1) 10"
  by (simp add: chainLinks_def)

lemma nth_chainLinks:
  "i < min (length ns - 1) 10 \<Longrightarrow> chainLinks ns ! i = chainLink ns i"
  by (simp add: chainLinks_def)

text \<open>
  Claim C9 (chain fallback), as the code has it. The loop that fabricates the chain runs
  for \<open>i < Math.min(nodes.length - 1, 10)\<close>. When the resolution leaves no link and
  there are at least two nodes, \<open>drawGraph\<close> draws the chain, marks it as generated, and
  the chain has \<open>min (n - 1) 10\<close> links, the \<open>i\<close>-th from node \<open>i\<close> to node \<open>i + 1\<close>
  with the relation \<open>related\<close> and no original relationship. For a list of up to eleven
  nodes that is every adjacent pair; for a longer list the chain stops after ten links.
\<close>

theorem chain_fallback:
  assumes "resolveLinks inh ns rels = []" and "2 \<le> length ns"
  shows "drawGraphLinks inh ns rels = (chainLinks ns, True) \<and>
         length (chainLinks ns) = min (length ns - 1) 10 \<and>
         (\<forall>i < min (length ns - 1) 10.
            pl_source (chainLinks ns ! i) = NodeId (pn_id (ns ! i)) \<and>
            pl_target (chainLinks ns ! i) = NodeId (pn_id (ns ! (i + 1))) \<and>
            pl_relation (chainLinks ns ! i) = ''related'' \<and>
            pl_originalRelation (chainLinks ns ! i) = None)"
proof -
  have "drawGraphLinks inh ns rels = (chainLinks ns, True)"
    using assms by (simp add: drawGraphLinks_def)
  moreover have "\<forall>i < min (length ns - 1) 10.
            pl_source (chainLinks ns ! i) = NodeId (pn_id (ns ! i)) \<and>
            pl_target (chainLinks ns ! i) = NodeId (pn_id (ns ! (i + 1))) \<and>
            pl_relation (chainLinks ns ! i) = ''related'' \<and>
            pl_originalRelation (chainLinks ns ! i) = None"
    by (simp add: nth_chainLinks chainLink_def)
  ultimately show ?thesis by (simp add: length_chainLinks)
qed

theorem chain_fallback_witness:
  "resolveLinks (\<lambda>k. k) threeNodes [] = [] \<and> length threeNodes = 3 \<and>
   snd (drawGraphLinks (\<lambda>k. k) threeNodes []) = True \<and>
   length (fst (drawGraphLinks (\<lambda>k. k) threeNodes [])) = 2 \<and>
   pl_source (fst (drawGraphLinks (\<lambda>k. k) threeNodes []) ! 0) = NodeId ''a'' \<and>
   pl_target (fst (drawGraphLinks (\<lambda>k. k) threeNodes []) ! 0) = NodeId ''b'' \<and>
   pl_source (fst (drawGraphLinks (\<lambda>k. k) threeNodes []) ! 1) = NodeId ''b'' \<and>
   pl_target (fst (drawGraphLinks (\<lambda>k. k) threeNodes []) ! 1) = NodeId ''c''"
proof -
  have h: "resolveLinks (\<lambda>k. k) threeNodes [] = []" "2 \<le> length threeNodes"
    by (simp_all add: resolveLinks_def threeNodes_def)
  have l: "min (length threeNodes - 1) 10 = 2"
    by (simp add: threeNodes_def)
  from chain_fallback[OF h] have
    "drawGraphLinks (\<lambda>k. k) threeNodes [] = (chainLinks threeNodes, True)"
    "length (chainLinks threeNodes) = 2"
    "\<forall>i<2. pl_source (chainLinks threeNodes ! i) = NodeId (pn_id (threeNodes ! i)) \<and>
            pl_target (chainLinks threeNodes ! i) = NodeId (pn_id (threeNodes ! (i + 1)))"
    unfolding l by simp_all
  then show ?thesis using h(1)
    by (simp add: threeNodes_def pnode_def)
qed

text \<open>The claim as stated fails for twelve nodes: ten links, not eleven.\<close>

theorem chain_fallback_counterexample:
  "length twelveNodes = 12 \<and> resolveLinks (\<lambda>k. k) twelveNodes [] = [] \<and>
   snd (drawGraphLinks (\<lambda>k. k) twelveNodes []) = True \<and>
   length (fst (drawGraphLinks (\<lambda>k. k) twelveNodes [])) = 10"
  by (simp add: drawGraphLinks_def resolveLinks_def chainLinks_def
      twelveNodes_def)

section \<open>Link resolution and the links of the store\<close>












lemma id_bindLink: "l_id (bindLink link) = l_id link"
  by (simp add: bindLink_def)






text \<open>
  The keys left out above. The lookup object inherits the property \<open>constructor\<close>: a
  relationship whose source is named so, in a node list without such a node, is kept
  with a source that is no node, where the substring fallback would have dropped it. A
  node whose id is \<open>__proto__\<close> gets no entry in the lookup object.
\<close>

lemma inherited_key_kept:
  "map (\<lambda>l. (pl_source l, pl_target l))
     (resolveLinks (\<lambda>k. k) threeNodes [rel ''constructor'' ''a''])
     = [(Inherited ''constructor'', NodeId ''a'')] \<and>
   ownNames [\<lparr>pn_id = ''__proto__'', pn_name = ''__proto__'', pn_originalId = None\<rparr>]
     ''__proto__'' = None"
  by (simp add: resolveLinks_def resolveRelationship_def resolveEndpoint_def nameToId_def
      ownNames_def addNames_def setName_def truthyEnd_def objectPrototypeKeys_def
      fuzzyMatch_def sourceKey_def targetKey_def js_or_def truthy_def or_default_def
      template_def endpoint_text_def threeNodes_def pnode_def rel_def Let_def)

section \<open>The highlight overlay\<close>

lemmas highlight_eval =
  highlightSampledGraph_def highlightNode_def highlightLink_def isHighlightedLink_def
  isSampledNode_def connectedLinkIds_def sampledLinkIds_def sampledNodeIds_def has_def
  pairId_def renderCurrentGraph_def renderNodeStyle_def renderLinkStyle_def validLinks_def
  validLink_def hasNode_def bindLink_def nodeOf_def renderStage_def end_or_def end_id_def
  end_text_def toEnd_def getNodeColor_def resetNodeStyle_def resetLinkStyle_def
  dimmedNodeStyle_def dimmedLinkStyle_def sampledNodeStyle_def sampledLinkStyle_def
  processLink_def js_or_def truthy_def template_def Let_def










lemma highlightNode_fresh: "highlightNode ids (highlightNode ids' el) = highlightNode ids el"
  by (simp add: highlightNode_def Let_def)

lemma highlightLink_fresh: "highlightLink conn (highlightLink conn' el) = highlightLink conn el"
  by (simp add: highlightLink_def Let_def)

lemma highlightNode_none: "highlightNode [] el = (fst el, dimmedNodeStyle (fst el))"
  by (simp add: highlightNode_def isSampledNode_def dimmedNodeStyle_def resetNodeStyle_def Let_def)

lemma connectedLinkIds_none: "connectedLinkIds gr [] [] = []"
proof -
  have "\<not> has (sampledNodeIds []) v" for v
    by (simp add: sampledNodeIds_def has_def split: link_end.splits)
  then show ?thesis
    by (simp add: connectedLinkIds_def sampledLinkIds_def Let_def)
qed

lemma highlightLink_none: "highlightLink [] el = (fst el, dimmedLinkStyle)"
  by (simp add: highlightLink_def isHighlightedLink_def dimmedLinkStyle_def resetLinkStyle_def
      Let_def)

text \<open>
  Claim C7 (highlight reset), as the code has it. The overlay has no branch for an
  empty sampled set: every circle and line is restyled from the store and the set of
  the call, so the result never depends on an earlier call, and with the empty set
  every circle ends in the dimmed style (opacity 0.4, stroke width 1) and every line in
  the dimmed style (opacity 0.3, stroke width 1). That is the state the overlay reaches
  when called with the empty set alone; it is not the style of a render.
\<close>

theorem highlight_reset:
  assumes "initialised ev"
  shows "highlightSampledGraph ev gr sn' sl' (highlightSampledGraph ev gr sn sl dsp)
           = highlightSampledGraph ev gr sn' sl' dsp \<and>
         node_groups (highlightSampledGraph ev gr [] [] (highlightSampledGraph ev gr sn sl dsp))
           = map (\<lambda>el. (fst el, dimmedNodeStyle (fst el))) (node_groups dsp) \<and>
         link_lines (highlightSampledGraph ev gr [] [] (highlightSampledGraph ev gr sn sl dsp))
           = map (\<lambda>el. (fst el, dimmedLinkStyle)) (link_lines dsp)"
proof -
  have fresh: "highlightSampledGraph ev gr sn' sl' (highlightSampledGraph ev gr sn sl dsp)
           = highlightSampledGraph ev gr sn' sl' dsp" for sn' sl'
    using assms
    by (simp add: highlightSampledGraph_def highlightNode_fresh highlightLink_fresh comp_def)
  have "node_groups (highlightSampledGraph ev gr [] [] dsp)
           = map (\<lambda>el. (fst el, dimmedNodeStyle (fst el))) (node_groups dsp)"
    using assms
    by (simp add: highlightSampledGraph_def sampledNodeIds_def highlightNode_none)
  moreover have "link_lines (highlightSampledGraph ev gr [] [] dsp)
           = map (\<lambda>el. (fst el, dimmedLinkStyle)) (link_lines dsp)"
    using assms
    by (simp add: highlightSampledGraph_def connectedLinkIds_none highlightLink_none)
  ultimately show ?thesis using fresh by simp
qed

theorem highlight_reset_witness:
  "map (\<lambda>el. ns_opacity (snd el)) (node_groups (highlightSampledGraph page (renderStage triGraph) [] []
     (highlightSampledGraph page (renderStage triGraph) [sampledId ''a''] [] (renderCurrentGraph triGraph))))
     = [0.4, 0.4, 0.4] \<and>
   map (\<lambda>el. ls_opacity (snd el)) (link_lines (highlightSampledGraph page (renderStage triGraph) [] []
     (highlightSampledGraph page (renderStage triGraph) [sampledId ''a''] [] (renderCurrentGraph triGraph))))
     = [0.3, 0.3]"
proof -
  have i: "initialised page" by (simp add: page_def)
  from highlight_reset[OF i, of "renderStage triGraph" "[]" "[]" "[sampledId ''a'']" "[]"
      "renderCurrentGraph triGraph"]
  have "node_groups (highlightSampledGraph page (renderStage triGraph) [] []
          (highlightSampledGraph page (renderStage triGraph) [sampledId ''a''] [] (renderCurrentGraph triGraph)))
        = map (\<lambda>el. (fst el, dimmedNodeStyle (fst el))) (node_groups (renderCurrentGraph triGraph))"
    "link_lines (highlightSampledGraph page (renderStage triGraph) [] []
          (highlightSampledGraph page (renderStage triGraph) [sampledId ''a''] [] (renderCurrentGraph triGraph)))
        = map (\<lambda>el. (fst el, dimmedLinkStyle)) (link_lines (renderCurrentGraph triGraph))"
    by blast+
  then show ?thesis
    by (simp add: highlight_eval example_defs)
qed

text \<open>
  The claim as stated fails: after a render the circles have opacity 1 and stroke width
  2 and the lines opacity 0.8 and width 2.5; after the overlay with \<open>{a}\<close> and then
  with the empty set they have 0.4 and 1, and 0.3 and 1.
\<close>

theorem highlight_reset_counterexample:
  "map (\<lambda>el. (ns_opacity (snd el), ns_stroke_width (snd el)))
     (node_groups (renderCurrentGraph triGraph)) = [(1, 2), (1, 2), (1, 2)] \<and>
   map (\<lambda>el. (ns_opacity (snd el), ns_stroke_width (snd el)))
     (node_groups (highlightSampledGraph page (renderStage triGraph) [] []
        (highlightSampledGraph page (renderStage triGraph) [sampledId ''a''] [] (renderCurrentGraph triGraph))))
     = [(0.4, 1), (0.4, 1), (0.4, 1)] \<and>
   map (\<lambda>el. (ls_opacity (snd el), ls_stroke_width (snd el)))
     (link_lines (renderCurrentGraph triGraph)) = [(0.8, 2.5), (0.8, 2.5)] \<and>
   map (\<lambda>el. (ls_opacity (snd el), ls_stroke_width (snd el)))
     (link_lines (highlightSampledGraph page (renderStage triGraph) [] []
        (highlightSampledGraph page (renderStage triGraph) [sampledId ''a''] [] (renderCurrentGraph triGraph))))
     = [(0.3, 1), (0.3, 1)]"
  by (simp add: highlight_eval example_defs)

section \<open>Fitting the view\<close>

lemma low_Min: "vs \<noteq> [] \<Longrightarrow> low vs = Min (set vs)"
proof (cases vs)
  case Nil
  assume "vs \<noteq> []"
  with Nil show ?thesis by simp
next
  case (Cons a list)
  with Min.set_eq_fold[of a list] show ?thesis by (simp add: low_def)
qed

lemma high_Max: "vs \<noteq> [] \<Longrightarrow> high vs = Max (set vs)"
proof (cases vs)
  case Nil
  assume "vs \<noteq> []"
  with Nil show ?thesis by simp
next
  case (Cons a list)
  with Max.set_eq_fold[of a list] show ?thesis by (simp add: high_def)
qed

lemma radius_ge: "25 \<le> real (getNodeRadius ls n)"
  by (simp add: getNodeRadius_def Let_def)

lemma box_wide:
  assumes "nodes gr \<noteq> []"
  shows "250 \<le> box_width gr" and "250 \<le> box_height gr"
proof -
  from assms obtain n where n: "n \<in> set (nodes gr)" by (cases "nodes gr") auto
  have fin: "finite (f ` set (nodes gr))" for f :: "gnode \<Rightarrow> real" by simp
  have "circle_left gr \<le> n_x n - real (getNodeRadius (links gr) n)"
    unfolding circle_left_def using n by (intro Min_le) auto
  moreover have "n_x n + real (getNodeRadius (links gr) n) \<le> circle_right gr"
    unfolding circle_right_def using n by (intro Max_ge) auto
  ultimately show "250 \<le> box_width gr"
    using radius_ge[of "links gr" n] by (simp add: box_width_def)
  have "circle_top gr \<le> n_y n - real (getNodeRadius (links gr) n)"
    unfolding circle_top_def using n by (intro Min_le) auto
  moreover have "n_y n + real (getNodeRadius (links gr) n) \<le> circle_bottom gr"
    unfolding circle_bottom_def using n by (intro Max_ge) auto
  ultimately show "250 \<le> box_height gr"
    using radius_ge[of "links gr" n] by (simp add: box_height_def)
qed

lemma circle_bounds:
  assumes "n \<in> set (nodes gr)"
  shows "circle_left gr \<le> n_x n - real (getNodeRadius (links gr) n)"
    and "n_x n + real (getNodeRadius (links gr) n) \<le> circle_right gr"
    and "circle_top gr \<le> n_y n - real (getNodeRadius (links gr) n)"
    and "n_y n + real (getNodeRadius (links gr) n) \<le> circle_bottom gr"
  unfolding circle_left_def circle_right_def circle_top_def circle_bottom_def
  using assms by (auto intro!: Min_le Max_ge)

lemma adjustViewBox_eq:
  assumes "nodes gr \<noteq> []"
  shows "adjustViewBox ev gr =
    (let scale = min (min (real (clientWidth ev) / box_width gr)
                          (real (clientHeight ev) / box_height gr)) 1
     in if scale = 0 then Invalid
        else Fitted \<lparr>
          vb_x = (circle_left gr + circle_right gr) / 2 -
                 max (box_width gr) (real (clientWidth ev) / scale) / 2,
          vb_y = (circle_top gr + circle_bottom gr) / 2 -
                 max (box_height gr) (real (clientHeight ev) / scale) / 2,
          vb_width = max (box_width gr) (real (clientWidth ev) / scale),
          vb_height = max (box_height gr) (real (clientHeight ev) / scale)\<rparr>)"
  using assms
  by (simp add: adjustViewBox_def Let_def low_Min high_Max box_width_def box_height_def
      circle_left_def circle_right_def circle_top_def circle_bottom_def)

text \<open>
  What the automatic fit achieves. \<open>adjustViewBox\<close>, which runs after every render and
  on every tick, does nothing on an empty store. On a store with at least one node, in a
  container of positive width and height, it sets a view box with these properties: the
  box of the node circles expanded by the margin is at least 250 wide and high (so
  nothing is divided by a box of size zero, also for one node); the view box has the
  proportions of the container, so the svg shows it at one scale on both axes; that scale
  is positive, at most 1, the box of the circles with its margin scaled by it fits the
  container, and no greater value that is at most 1 has that property; the view box is
  centred on the box of the circles and contains every circle with its margin.
\<close>

theorem adjustViewBox_fits:
  "(nodes gr = [] \<longrightarrow> adjustViewBox ev gr = Skipped) \<and>
   (nodes gr \<noteq> [] \<and> 0 < clientWidth ev \<and> 0 < clientHeight ev \<longrightarrow>
     (\<exists>vb. adjustViewBox ev gr = Fitted vb \<and>
        250 \<le> box_width gr \<and> 250 \<le> box_height gr \<and>
        real (clientWidth ev) / vb_width vb = shown_scale ev vb \<and>
        real (clientHeight ev) / vb_height vb = shown_scale ev vb \<and>
        0 < shown_scale ev vb \<and> shown_scale ev vb \<le> 1 \<and>
        shown_scale ev vb * box_width gr \<le> real (clientWidth ev) \<and>
        shown_scale ev vb * box_height gr \<le> real (clientHeight ev) \<and>
        (\<forall>s. s \<le> 1 \<and> s * box_width gr \<le> real (clientWidth ev) \<and>
              s * box_height gr \<le> real (clientHeight ev) \<longrightarrow> s \<le> shown_scale ev vb) \<and>
        vb_x vb + vb_width vb / 2 = (circle_left gr + circle_right gr) / 2 \<and>
        vb_y vb + vb_height vb / 2 = (circle_top gr + circle_bottom gr) / 2 \<and>
        box_width gr \<le> vb_width vb \<and> box_height gr \<le> vb_height vb \<and>
        (\<forall>n\<in>set (nodes gr).
           vb_x vb \<le> n_x n - real (getNodeRadius (links gr) n) - 100 \<and>
           n_x n + real (getNodeRadius (links gr) n) + 100 \<le> vb_x vb + vb_width vb \<and>
           vb_y vb \<le> n_y n - real (getNodeRadius (links gr) n) - 100 \<and>
           n_y n + real (getNodeRadius (links gr) n) + 100 \<le> vb_y vb + vb_height vb)))"
proof -
  have none: "nodes gr = [] \<longrightarrow> adjustViewBox ev gr = Skipped"
    by (simp add: adjustViewBox_def)
  have some: "\<exists>vb. adjustViewBox ev gr = Fitted vb \<and>
        250 \<le> box_width gr \<and> 250 \<le> box_height gr \<and>
        real (clientWidth ev) / vb_width vb = shown_scale ev vb \<and>
        real (clientHeight ev) / vb_height vb = shown_scale ev vb \<and>
        0 < shown_scale ev vb \<and> shown_scale ev vb \<le> 1 \<and>
        shown_scale ev vb * box_width gr \<le> real (clientWidth ev) \<and>
        shown_scale ev vb * box_height gr \<le> real (clientHeight ev) \<and>
        (\<forall>s. s \<le> 1 \<and> s * box_width gr \<le> real (clientWidth ev) \<and>
              s * box_height gr \<le> real (clientHeight ev) \<longrightarrow> s \<le> shown_scale ev vb) \<and>
        vb_x vb + vb_width vb / 2 = (circle_left gr + circle_right gr) / 2 \<and>
        vb_y vb + vb_height vb / 2 = (circle_top gr + circle_bottom gr) / 2 \<and>
        box_width gr \<le> vb_width vb \<and> box_height gr \<le> vb_height vb \<and>
        (\<forall>n\<in>set (nodes gr).
           vb_x vb \<le> n_x n - real (getNodeRadius (links gr) n) - 100 \<and>
           n_x n + real (getNodeRadius (links gr) n) + 100 \<le> vb_x vb + vb_width vb \<and>
           vb_y vb \<le> n_y n - real (getNodeRadius (links gr) n) - 100 \<and>
           n_y n + real (getNodeRadius (links gr) n) + 100 \<le> vb_y vb + vb_height vb)"
    if ne: "nodes gr \<noteq> []" and cw: "0 < clientWidth ev" and ch: "0 < clientHeight ev"
  proof -
    define W where "W = box_width gr"
    define H where "H = box_height gr"
    define cw' where "cw' = real (clientWidth ev)"
    define ch' where "ch' = real (clientHeight ev)"
    define sc where "sc = min (min (cw' / W) (ch' / H)) 1"
    define vb where "vb = \<lparr>
          vb_x = (circle_left gr + circle_right gr) / 2 - max W (cw' / sc) / 2,
          vb_y = (circle_top gr + circle_bottom gr) / 2 - max H (ch' / sc) / 2,
          vb_width = max W (cw' / sc), vb_height = max H (ch' / sc)\<rparr>"
    have W: "250 \<le> W" and H: "250 \<le> H"
      using box_wide[OF ne] by (simp_all add: W_def H_def)
    have pos: "0 < cw'" "0 < ch'" using cw ch by (simp_all add: cw'_def ch'_def)
    have sc0: "0 < sc" using W H pos by (simp add: sc_def)
    have sc1: "sc \<le> 1" by (simp add: sc_def)
    have "sc \<le> cw' / W" by (simp add: sc_def)
    then have scW: "sc * W \<le> cw'" using W by (simp add: pos_le_divide_eq)
    have "sc \<le> ch' / H" by (simp add: sc_def)
    then have scH: "sc * H \<le> ch'" using H by (simp add: pos_le_divide_eq)
    have largest: "s \<le> sc" if "s \<le> 1" "s * W \<le> cw'" "s * H \<le> ch'" for s
    proof -
      have "s \<le> cw' / W" using that(2) W by (simp add: pos_le_divide_eq)
      moreover have "s \<le> ch' / H" using that(3) H by (simp add: pos_le_divide_eq)
      ultimately show ?thesis using that(1) by (simp add: sc_def)
    qed
    have Wle: "W \<le> cw' / sc" using scW sc0 by (simp add: pos_le_divide_eq mult.commute)
    then have vw: "max W (cw' / sc) = cw' / sc" by simp
    have Hle: "H \<le> ch' / sc" using scH sc0 by (simp add: pos_le_divide_eq mult.commute)
    then have vh: "max H (ch' / sc) = ch' / sc" by simp
    have sc_ne: "min (min (real (clientWidth ev) / box_width gr)
                          (real (clientHeight ev) / box_height gr)) 1 \<noteq> 0"
      using sc0 by (simp only: sc_def W_def H_def cw'_def ch'_def)
    have eq: "adjustViewBox ev gr = Fitted vb"
      unfolding adjustViewBox_eq[OF ne, of ev] Let_def
      by (simp only: sc_ne if_False vb_def sc_def W_def H_def cw'_def ch'_def)
    have sel: "vb_width vb = cw' / sc" "vb_height vb = ch' / sc"
      "vb_x vb = (circle_left gr + circle_right gr) / 2 - cw' / sc / 2"
      "vb_y vb = (circle_top gr + circle_bottom gr) / 2 - ch' / sc / 2"
      by (simp_all add: vb_def vw vh)
    have rw: "cw' / vb_width vb = sc" and rh: "ch' / vb_height vb = sc"
      unfolding sel using pos sc0 by simp_all
    have sh: "shown_scale ev vb = sc"
      unfolding shown_scale_def cw'_def[symmetric] ch'_def[symmetric] rw rh by simp
    have p1: "250 \<le> box_width gr \<and> 250 \<le> box_height gr \<and>
        real (clientWidth ev) / vb_width vb = shown_scale ev vb \<and>
        real (clientHeight ev) / vb_height vb = shown_scale ev vb \<and>
        0 < shown_scale ev vb \<and> shown_scale ev vb \<le> 1 \<and>
        shown_scale ev vb * box_width gr \<le> real (clientWidth ev) \<and>
        shown_scale ev vb * box_height gr \<le> real (clientHeight ev) \<and>
        (\<forall>s. s \<le> 1 \<and> s * box_width gr \<le> real (clientWidth ev) \<and>
              s * box_height gr \<le> real (clientHeight ev) \<longrightarrow> s \<le> shown_scale ev vb)"
      unfolding sh using W H sc0 sc1 scW scH largest rw rh
      unfolding W_def H_def cw'_def ch'_def by simp
    have p2: "vb_x vb + vb_width vb / 2 = (circle_left gr + circle_right gr) / 2 \<and>
        vb_y vb + vb_height vb / 2 = (circle_top gr + circle_bottom gr) / 2 \<and>
        box_width gr \<le> vb_width vb \<and> box_height gr \<le> vb_height vb"
      unfolding sel using Wle Hle by (simp add: W_def H_def)
    have p3: "vb_x vb \<le> n_x n - real (getNodeRadius (links gr) n) - 100 \<and>
           n_x n + real (getNodeRadius (links gr) n) + 100 \<le> vb_x vb + vb_width vb \<and>
           vb_y vb \<le> n_y n - real (getNodeRadius (links gr) n) - 100 \<and>
           n_y n + real (getNodeRadius (links gr) n) + 100 \<le> vb_y vb + vb_height vb"
      if "n \<in> set (nodes gr)" for n
    proof -
      define vw' where "vw' = cw' / sc"
      define vh' where "vh' = ch' / sc"
      have "circle_right gr - circle_left gr + 200 \<le> vw'"
        "circle_bottom gr - circle_top gr + 200 \<le> vh'"
        using Wle Hle
        by (simp_all add: vw'_def vh'_def W_def H_def box_width_def box_height_def)
      then show ?thesis
        unfolding sel vw'_def[symmetric] vh'_def[symmetric] using circle_bounds[OF that]
        by argo
    qed
    from eq p1 p2 p3 show ?thesis by blast
  qed
  from none some show ?thesis by blast
qed

theorem adjustViewBox_fits_witness:
  "nodes oneNode \<noteq> [] \<and> 0 < clientWidth page \<and> 0 < clientHeight page \<and>
   adjustViewBox page oneNode =
     Fitted \<lparr>vb_x = -597, vb_y = -396, vb_width = 1200, vb_height = 800\<rparr> \<and>
   shown_scale page \<lparr>vb_x = -597, vb_y = -396, vb_width = 1200, vb_height = 800\<rparr> = 1"
proof -
  have h: "nodes oneNode \<noteq> [] \<and> 0 < clientWidth page \<and> 0 < clientHeight page"
    by (simp add: oneNode_def page_def)
  have "adjustViewBox page oneNode =
     Fitted \<lparr>vb_x = -597, vb_y = -396, vb_width = 1200, vb_height = 800\<rparr>"
    "shown_scale page \<lparr>vb_x = -597, vb_y = -396, vb_width = 1200, vb_height = 800\<rparr> = 1"
    by (simp_all add: adjustViewBox_def low_def high_def getNodeRadius_def Let_def oneNode_def
        page_def plainNode_def shown_scale_def)
  with adjustViewBox_fits[of oneNode page] h show ?thesis by simp
qed

lemma selectAll_node: "selectAll ''node'' dsp = []"
  by (simp add: selectAll_def groupClasses_def lineClasses_def labelClasses_def)

lemma fitView_returns: "fitView ev dsp = None"
  by (simp add: fitView_def selectAll_node)

text \<open>
  Claim C8 (viewport fit) fails on the code at two places. The manual fit, \<open>fitView\<close>,
  selects the elements of class \<open>node\<close>, but the groups that \<open>renderCurrentGraph\<close>
  draws have the class \<open>node-group\<close>: on the rendered store that holds the one node
  \<open>a\<close> the selection is empty and \<open>fitView\<close> returns without a transform (so does
  it on every display, lemma \<open>fitView_returns\<close>). The automatic fit, \<open>adjustViewBox\<close>,
  divides the container size by its scale without the guard that
  \<open>createPositionedNode\<close> has (\<open>clientWidth || 1200\<close>): in a container of width and
  height 0 the scale is 0 and the view box of that one-node store is not a rectangle.
\<close>

theorem fit_without_result:
  "map (\<lambda>el. (n_id (fst el), groupClasses (snd el))) (node_groups (renderCurrentGraph oneNode))
     = [(''a'', [''node-group''])] \<and>
   selectAll ''node'' (renderCurrentGraph oneNode) = [] \<and>
   selectAll ''node-group'' (renderCurrentGraph oneNode) = [Some (3, 4)] \<and>
   fitView page (renderCurrentGraph oneNode) = None \<and>
   clientWidth hiddenPage = 0 \<and> clientHeight hiddenPage = 0 \<and>
   adjustViewBox hiddenPage oneNode = Invalid"
  by (simp add: fitView_def selectAll_def groupClasses_def lineClasses_def labelClasses_def
      renderCurrentGraph_def renderNodeStyle_def validLinks_def adjustViewBox_def low_def
      high_def page_def hiddenPage_def oneNode_def plainNode_def Let_def)

section \<open>Initial placement\<close>








section \<open>Applying a batch twice\<close>

lemma findIndex_cong:
  assumes "length xs = length ys" and "\<forall>j<length xs. p (xs ! j) = q (ys ! j)"
  shows "findIndex p xs = findIndex q ys"
  using assms
proof (induction xs arbitrary: ys)
  case Nil
  then show ?case by simp
next
  case (Cons x xs)
  then obtain y ys' where ys: "ys = y # ys'" by (cases ys) auto
  have h: "p x = q y" using Cons.prems(2) ys by (auto dest: spec[of _ 0])
  have "\<forall>j<length xs. p (xs ! j) = q (ys' ! j)"
    using Cons.prems(2) ys by (auto dest: spec[of _ "Suc _"])
  with Cons.prems(1) ys have "findIndex p xs = findIndex q ys'"
    by (intro Cons.IH) auto
  with h ys show ?case by simp
qed

lemma findIndex_append_Some:
  "findIndex p xs = Some i \<Longrightarrow> findIndex p (xs @ ys) = Some i"
  by (induction xs arbitrary: i) (auto split: if_splits option.splits)

lemma findIndex_append_None:
  "findIndex p xs = None \<Longrightarrow> p y \<Longrightarrow> findIndex p (xs @ [y]) = Some (length xs)"
  by (induction xs) (auto split: if_splits option.splits)

lemma findIndex_exists: "x \<in> set xs \<Longrightarrow> p x \<Longrightarrow> \<exists>i. findIndex p xs = Some i"
  using findIndex_None[of p xs] by (cases "findIndex p xs") auto

text \<open>The self-heal pass, node by node.\<close>

lemma healOrder_idem: "healOrder (healOrder n) = healOrder n"
  by (simp add: healOrder_def is_normal_def split: option.splits)

lemma healOrder_promote_idem:
  "healOrder (promote (healOrder (promote n))) = healOrder (promote n)"
  by (simp add: healOrder_def promote_def is_normal_def split: option.splits)

lemma unmarked_healOrder: "unmarked (healOrder n) = unmarked n"
  by (simp add: unmarked_def healOrder_def split: option.splits)

lemma unmarked_promote: "unmarked (promote n) = unmarked n"
  by (simp add: unmarked_def promote_def)

lemma unmarked_fields:
  "unmarked a = unmarked b \<Longrightarrow>
   n_id a = n_id b \<and> n_name a = n_name b \<and> n_type a = n_type b \<and>
   n_description a = n_description b \<and> n_group a = n_group b \<and> n_x a = n_x b \<and> n_y a = n_y b"
  by (cases a, cases b) (simp add: unmarked_def)

lemma assignNode_unmarked: "unmarked a = unmarked b \<Longrightarrow> assignNode a r = assignNode b r"
  by (cases a, cases b) (simp add: unmarked_def assignNode_def split: option.splits)

lemma heal_length: "length (ensureInitialNodeExpansionStatus ev ns) = length ns"
  by (simp add: ensureInitialNodeExpansionStatus_def split: option.splits)

lemma findInitialNode_bound: "findInitialNode ev ns = Some i \<Longrightarrow> i < length ns"
  by (auto simp: findInitialNode_def split: if_splits option.splits dest: findIndex_Some)

lemma findInitialNode_None: "findInitialNode ev ns = None \<longleftrightarrow> ns = []"
  by (auto simp: findInitialNode_def split: if_splits option.splits)

lemma heal_nth:
  assumes "findInitialNode ev ns = Some i" and "j < length ns"
  shows "ensureInitialNodeExpansionStatus ev ns ! j =
         healOrder (if j = i then promote (ns ! j) else ns ! j)"
  using assms findInitialNode_bound[OF assms(1)]
  by (simp add: ensureInitialNodeExpansionStatus_def nth_list_update)

lemma heal_unmarked:
  assumes "j < length ns"
  shows "unmarked (ensureInitialNodeExpansionStatus ev ns ! j) = unmarked (ns ! j)"
proof (cases "findInitialNode ev ns")
  case None
  then show ?thesis by (simp add: ensureInitialNodeExpansionStatus_def)
next
  case (Some i)
  show ?thesis unfolding heal_nth[OF Some assms]
    by (simp add: unmarked_healOrder unmarked_promote)
qed

lemma order_healOrder: "n_expansion_order (healOrder n) = n_expansion_order n"
  by (simp add: healOrder_def split: option.splits)

lemma order_promote:
  "n_expansion_order (promote n) = n_expansion_order n \<or> n_expansion_order (promote n) = Some 0"
  by (simp add: promote_def)

lemma matchesEntity_unmarked:
  "unmarked a = unmarked b \<Longrightarrow> matchesEntity e a = matchesEntity e b"
  using unmarked_fields[of a b] by (simp add: matchesEntity_def)

lemma between_findInitialNode:
  assumes bt: "between ev ps qs" and fi: "findInitialNode ev ps = Some i0"
  shows "findInitialNode ev qs = Some i0"
proof -
  let ?seed = "\<lambda>n. n_expansion_order n = Some 0"
  have len: "length qs = length ps" using bt by (simp add: between_def)
  have i0: "i0 < length ps" using fi by (rule findInitialNode_bound)
  have ne: "ps \<noteq> []" "qs \<noteq> []" using i0 len by auto
  have q: "qs ! j = ps ! j \<or> qs ! j = healOrder (if j = i0 then promote (ps ! j) else ps ! j)"
    if "j < length ps" for j
    using bt that heal_nth[OF fi that] by (auto simp: between_def)
  have um: "unmarked (qs ! j) = unmarked (ps ! j)" if "j < length ps" for j
    using q[OF that] by (auto simp: unmarked_healOrder unmarked_promote)
  have other: "n_expansion_order (qs ! j) = n_expansion_order (ps ! j)"
    if "j < length ps" "j \<noteq> i0" for j
    using q[OF that(1)] that(2) by (auto simp: order_healOrder)
  have at: "n_expansion_order (qs ! i0) = n_expansion_order (ps ! i0) \<or>
            n_expansion_order (qs ! i0) = Some 0"
    using q[OF i0] order_promote[of "ps ! i0"] by (auto simp: order_healOrder)
  have m2: "findIndex (matchesEntity e) qs = findIndex (matchesEntity e) ps" for e
  proof (rule findIndex_cong[OF len], intro allI impI)
    fix j assume "j < length qs"
    then have "unmarked (qs ! j) = unmarked (ps ! j)" using um len by simp
    then show "matchesEntity e (qs ! j) = matchesEntity e (ps ! j)"
      by (rule matchesEntity_unmarked)
  qed
  show ?thesis
  proof (cases "findIndex ?seed ps")
    case (Some k)
    then have k: "i0 = k" using fi ne by (simp add: findInitialNode_def)
    from findIndex_Some[OF Some] k have "n_expansion_order (ps ! i0) = Some 0" by simp
    with at have "n_expansion_order (qs ! i0) = n_expansion_order (ps ! i0)" by auto
    with other have "\<forall>j<length qs. ?seed (qs ! j) = ?seed (ps ! j)"
      using len by metis
    with len have "findIndex ?seed qs = findIndex ?seed ps" by (intro findIndex_cong) auto
    with Some k ne show ?thesis by (simp add: findInitialNode_def)
  next
    case None
    then have nos: "\<not> ?seed (ps ! j)" if "j < length ps" for j
      using that by (auto simp: findIndex_None)
    show ?thesis
    proof (cases "?seed (qs ! i0)")
      case True
      have "\<forall>j<i0. \<not> ?seed (qs ! j)"
        using other nos i0 by auto
      with True i0 len have "findIndex ?seed qs = Some i0"
        by (intro findIndex_first) auto
      with ne show ?thesis by (simp add: findInitialNode_def)
    next
      case False
      have "\<forall>j<length qs. ?seed (qs ! j) = ?seed (ps ! j)"
      proof (intro allI impI)
        fix j assume "j < length qs"
        then have j: "j < length ps" using len by simp
        show "?seed (qs ! j) = ?seed (ps ! j)"
          using False nos[OF j] other[OF j] by (cases "j = i0") auto
      qed
      with len have "findIndex ?seed qs = findIndex ?seed ps" by (intro findIndex_cong) auto
      with None have sq: "findIndex ?seed qs = None" by simp
      have m2': "(case initial_entity ev of None \<Rightarrow> None
                  | Some val \<Rightarrow> if trim ev val \<noteq> []
                      then findIndex (matchesEntity (trim ev val)) qs else None) =
                 (case initial_entity ev of None \<Rightarrow> None
                  | Some val \<Rightarrow> if trim ev val \<noteq> []
                      then findIndex (matchesEntity (trim ev val)) ps else None)"
        by (simp add: m2 split: option.splits)
      show ?thesis
        using fi ne unfolding findInitialNode_def sq None m2' by simp
    qed
  qed
qed

lemma between_heal:
  assumes bt: "between ev ps qs"
  shows "ensureInitialNodeExpansionStatus ev qs = ensureInitialNodeExpansionStatus ev ps"
proof (cases "findInitialNode ev ps")
  case None
  then have "ps = []" by (simp add: findInitialNode_None)
  with bt show ?thesis by (simp add: between_def)
next
  case (Some i0)
  have len: "length qs = length ps" using bt by (simp add: between_def)
  have fq: "findInitialNode ev qs = Some i0" using bt Some by (rule between_findInitialNode)
  show ?thesis
  proof (rule nth_equalityI)
    show "length (ensureInitialNodeExpansionStatus ev qs) =
          length (ensureInitialNodeExpansionStatus ev ps)"
      by (simp add: heal_length len)
  next
    fix j assume "j < length (ensureInitialNodeExpansionStatus ev qs)"
    then have j: "j < length ps" "j < length qs" by (simp_all add: heal_length len)
    have q: "qs ! j = ps ! j \<or> qs ! j = healOrder (if j = i0 then promote (ps ! j) else ps ! j)"
      using bt j(1) heal_nth[OF Some j(1)] by (auto simp: between_def)
    show "ensureInitialNodeExpansionStatus ev qs ! j = ensureInitialNodeExpansionStatus ev ps ! j"
      unfolding heal_nth[OF fq j(2)] heal_nth[OF Some j(1)]
      using q by (auto simp: healOrder_idem healOrder_promote_idem)
  qed
qed

lemma between_healed: "between ev ps (ensureInitialNodeExpansionStatus ev ps)"
  by (simp add: between_def heal_length)

lemma heal_idem:
  "ensureInitialNodeExpansionStatus ev (ensureInitialNodeExpansionStatus ev ns) =
   ensureInitialNodeExpansionStatus ev ns"
  using between_healed by (rule between_heal)

text \<open>The merge of a batch, record by record.\<close>

lemma val_or_kept: "kept d v \<Longrightarrow> (case v of None \<Rightarrow> val_or v d | Some x \<Rightarrow> x) = val_or v d"
  by (auto simp: kept_def val_or_def split: option.splits)

lemma assignNode_newNode:
  assumes "keptByDefaults r"
  shows "assignNode (newNode p r) r = newNode p r"
proof -
  from assms have k: "kept (JStr ''concept'') (r_type r)" "kept (JStr []) (r_description r)"
      "kept (JNum 0) (r_group r)"
    by (simp_all add: keptByDefaults_def)
  have "(case r_type r of None \<Rightarrow> val_or (r_type r) (JStr ''concept'') | Some t \<Rightarrow> t)
          = val_or (r_type r) (JStr ''concept'')"
    "(case r_description r of None \<Rightarrow> val_or (r_description r) (JStr []) | Some d \<Rightarrow> d)
          = val_or (r_description r) (JStr [])"
    "(case r_group r of None \<Rightarrow> val_or (r_group r) (JNum 0) | Some g \<Rightarrow> g)
          = val_or (r_group r) (JNum 0)"
    using val_or_kept[OF k(1)] val_or_kept[OF k(2)] val_or_kept[OF k(3)] by simp_all
  then show ?thesis
    by (cases "r_type r"; cases "r_description r"; cases "r_group r")
      (simp_all add: assignNode_def newNode_def)
qed

lemma id_assignNode: "n_id (assignNode n r) = r_id r"
  by (simp add: assignNode_def)

lemma mergeNode_new:
  assumes "r_id r \<notin> set ex"
  shows "nodes (mergeNode ev ex r g) =
         nodes g @ [newNode (createPositionedNode ev (rand_calls g) (r_id r) (r_name r)
                      (r_type r) (length (nodes g)) (length (nodes g) + 1)) r]"
  using assms by (simp add: mergeNode_def Let_def)

lemma mergeNode_known:
  assumes "r_id r \<in> set ex"
  shows "mergeNode ev ex r g = g\<lparr>nodes := updFirst r (nodes g)\<rparr>"
  using assms by (simp add: mergeNode_def updFirst_def split: option.splits)

lemma mergeNodes_known:
  "\<forall>r\<in>set rs. r_id r \<in> set ex \<Longrightarrow>
   mergeNodes ev ex rs g = g\<lparr>nodes := fold updFirst rs (nodes g)\<rparr>"
  by (induction rs arbitrary: g) (simp_all add: mergeNode_known)

lemma ids_updFirst: "map n_id (updFirst r ns) = map n_id ns"
proof (cases "findIndex (\<lambda>n. n_id n = r_id r) ns")
  case None
  then show ?thesis by (simp add: updFirst_def)
next
  case (Some i)
  from findIndex_Some[OF Some] have "i < length ns" "n_id (ns ! i) = r_id r" by auto
  then show ?thesis using Some
    by (auto simp: updFirst_def id_assignNode nth_list_update intro!: nth_equalityI)
qed

lemma markExpansion_ids: "map r_id (markExpansion info rs) = map r_id rs"
  by (simp add: markExpansion_def comp_def)

lemma markExpansion_kept:
  assumes "\<forall>r\<in>set rs. r_id r \<notin> X \<longrightarrow> keptByDefaults r"
  shows "\<forall>r\<in>set (markExpansion info rs). r_id r \<notin> X \<longrightarrow> keptByDefaults r"
  using assms by (auto simp: markExpansion_def keptByDefaults_def)

lemma heal_ids: "map n_id (ensureInitialNodeExpansionStatus ev ns) = map n_id ns"
proof (rule nth_equalityI)
  show "length (map n_id (ensureInitialNodeExpansionStatus ev ns)) = length (map n_id ns)"
    by (simp add: heal_length)
next
  fix j assume "j < length (map n_id (ensureInitialNodeExpansionStatus ev ns))"
  then have j: "j < length ns" by (simp add: heal_length)
  from heal_unmarked[OF j, of ev] have "n_id (ensureInitialNodeExpansionStatus ev ns ! j) = n_id (ns ! j)"
    using unmarked_fields by blast
  then show "map n_id (ensureInitialNodeExpansionStatus ev ns) ! j = map n_id ns ! j"
    using j by (simp add: heal_length)
qed

lemma findIndex_ids:
  assumes "map n_id ns = map n_id ns'"
  shows "findIndex (\<lambda>n. n_id n = x) ns = findIndex (\<lambda>n. n_id n = x) ns'"
proof (rule findIndex_cong)
  show len: "length ns = length ns'" using assms by (rule map_eq_imp_length_eq)
  show "\<forall>j<length ns. (n_id (ns ! j) = x) = (n_id (ns' ! j) = x)"
  proof (intro allI impI)
    fix j assume j: "j < length ns"
    then have "map n_id ns ! j = map n_id ns' ! j" using assms by simp
    then show "(n_id (ns ! j) = x) = (n_id (ns' ! j) = x)" using j len by simp
  qed
qed

lemma hits_ids: "map n_id ns = map n_id ns' \<Longrightarrow> hits rs ns j = hits rs ns' j"
  using findIndex_ids[of ns ns'] by (simp add: hits_def)

lemma length_updFirst: "length (updFirst r ns) = length ns"
  by (simp add: updFirst_def split: option.splits)

lemma nth_updFirst:
  assumes "j < length ns"
  shows "updFirst r ns ! j =
         (if findIndex (\<lambda>n. n_id n = r_id r) ns = Some j then assignNode (ns ! j) r else ns ! j)"
  using assms by (auto simp: updFirst_def nth_list_update split: option.splits)

lemma ids_fold_updFirst: "map n_id (fold updFirst rs ns) = map n_id ns"
  by (induction rs arbitrary: ns) (simp_all add: ids_updFirst)

lemma length_fold_updFirst: "length (fold updFirst rs ns) = length ns"
  using ids_fold_updFirst[of rs ns] by (rule map_eq_imp_length_eq)

lemma nth_fold_updFirst:
  assumes "j < length ns"
  shows "fold updFirst rs ns ! j = assignAll (hits rs ns j) (ns ! j)"
  using assms
proof (induction rs arbitrary: ns)
  case Nil
  then show ?case by (simp add: assignAll_def hits_def)
next
  case (Cons r rs)
  have j: "j < length (updFirst r ns)" using Cons.prems by (simp add: length_updFirst)
  have h: "hits rs (updFirst r ns) j = hits rs ns j"
    by (rule hits_ids) (rule ids_updFirst)
  have "fold updFirst (r # rs) ns ! j = assignAll (hits rs ns j) (updFirst r ns ! j)"
    using Cons.IH[OF j] h by simp
  then show ?case
    unfolding nth_updFirst[OF Cons.prems] by (simp add: hits_def assignAll_def)
qed


lemma updFirst_append:
  assumes "r_id r \<in> set (map n_id ns)"
  shows "updFirst r (ns @ [x]) = updFirst r ns @ [x]"
proof -
  from assms obtain y where "y \<in> set ns" "n_id y = r_id r" by auto
  then obtain i where i: "findIndex (\<lambda>n. n_id n = r_id r) ns = Some i"
    using findIndex_exists[of y ns "\<lambda>n. n_id n = r_id r"] by auto
  from findIndex_Some[OF i] have il: "i < length ns" by simp
  show ?thesis
    using i il findIndex_append_Some[OF i, of "[x]"]
    by (simp add: updFirst_def list_update_append1 nth_append)
qed

lemma fold_updFirst_append:
  assumes "\<forall>r\<in>set ds. r_id r \<in> set (map n_id ns)"
  shows "fold updFirst ds (ns @ [x]) = fold updFirst ds ns @ [x]"
  using assms
proof (induction ds arbitrary: ns)
  case Nil
  then show ?case by simp
next
  case (Cons r ds)
  have a: "updFirst r (ns @ [x]) = updFirst r ns @ [x]"
    using Cons.prems by (intro updFirst_append) simp
  have "\<forall>q\<in>set ds. r_id q \<in> set (map n_id (updFirst r ns))"
    unfolding ids_updFirst using Cons.prems by simp
  from Cons.IH[OF this] show ?case by (simp add: a)
qed

text \<open>The stored attributes after a run of updates depend on the same attribute only.\<close>

lemma assignAll_Cons: "assignAll (r # rs) n = assignAll rs (assignNode n r)"
  by (simp add: assignAll_def)

lemma type_assignAll:
  "n_type a = n_type b \<Longrightarrow> n_type (assignAll rs a) = n_type (assignAll rs b)"
proof (induction rs arbitrary: a b)
  case Nil
  then show ?case by (simp add: assignAll_def)
next
  case (Cons r rs)
  have "n_type (assignNode a r) = n_type (assignNode b r)"
    using Cons.prems by (simp add: assignNode_def split: option.splits)
  from Cons.IH[OF this] show ?case by (simp add: assignAll_Cons)
qed

lemma description_assignAll:
  "n_description a = n_description b \<Longrightarrow>
   n_description (assignAll rs a) = n_description (assignAll rs b)"
proof (induction rs arbitrary: a b)
  case Nil
  then show ?case by (simp add: assignAll_def)
next
  case (Cons r rs)
  have "n_description (assignNode a r) = n_description (assignNode b r)"
    using Cons.prems by (simp add: assignNode_def split: option.splits)
  from Cons.IH[OF this] show ?case by (simp add: assignAll_Cons)
qed

lemma group_assignAll:
  "n_group a = n_group b \<Longrightarrow> n_group (assignAll rs a) = n_group (assignAll rs b)"
proof (induction rs arbitrary: a b)
  case Nil
  then show ?case by (simp add: assignAll_def)
next
  case (Cons r rs)
  have "n_group (assignNode a r) = n_group (assignNode b r)"
    using Cons.prems by (simp add: assignNode_def split: option.splits)
  from Cons.IH[OF this] show ?case by (simp add: assignAll_Cons)
qed

lemma place_assignAll: "n_x (assignAll rs a) = n_x a \<and> n_y (assignAll rs a) = n_y a"
proof (induction rs arbitrary: a)
  case Nil
  then show ?case by (simp add: assignAll_def)
next
  case (Cons r rs)
  have "n_x (assignNode a r) = n_x a \<and> n_y (assignNode a r) = n_y a"
    by (simp add: assignNode_def)
  with Cons.IH[of "assignNode a r"] show ?case by (simp add: assignAll_Cons)
qed

lemma assignNode_eqI:
  assumes "r_type r = None \<longrightarrow> n_type a = n_type b"
    and "r_description r = None \<longrightarrow> n_description a = n_description b"
    and "r_group r = None \<longrightarrow> n_group a = n_group b"
    and "n_x a = n_x b" and "n_y a = n_y b"
  shows "assignNode a r = assignNode b r"
  using assms
  by (cases a, cases b) (auto simp: assignNode_def split: option.splits)

lemma assign_again:
  assumes "assignAll rs n = n"
  shows "assignNode (assignAll rs (assignNode n r)) r = assignNode n r"
proof (rule assignNode_eqI)
  show "r_type r = None \<longrightarrow> n_type (assignAll rs (assignNode n r)) = n_type n"
  proof
    assume "r_type r = None"
    then have "n_type (assignNode n r) = n_type n" by (simp add: assignNode_def)
    from type_assignAll[OF this, of rs] show "n_type (assignAll rs (assignNode n r)) = n_type n"
      using assms by simp
  qed
  show "r_description r = None \<longrightarrow> n_description (assignAll rs (assignNode n r)) = n_description n"
  proof
    assume "r_description r = None"
    then have "n_description (assignNode n r) = n_description n" by (simp add: assignNode_def)
    from description_assignAll[OF this, of rs]
    show "n_description (assignAll rs (assignNode n r)) = n_description n"
      using assms by simp
  qed
  show "r_group r = None \<longrightarrow> n_group (assignAll rs (assignNode n r)) = n_group n"
  proof
    assume "r_group r = None"
    then have "n_group (assignNode n r) = n_group n" by (simp add: assignNode_def)
    from group_assignAll[OF this, of rs] show "n_group (assignAll rs (assignNode n r)) = n_group n"
      using assms by simp
  qed
  show "n_x (assignAll rs (assignNode n r)) = n_x n"
    using place_assignAll[of rs "assignNode n r"] by (simp add: assignNode_def)
  show "n_y (assignAll rs (assignNode n r)) = n_y n"
    using place_assignAll[of rs "assignNode n r"] by (simp add: assignNode_def)
qed

text \<open>Updating with \<open>r\<close> once more after the records before it leaves the list as it is.\<close>

lemma updFirst_again:
  assumes st: "fold updFirst ds ns = ns"
  shows "updFirst r (fold updFirst ds (updFirst r ns)) = updFirst r ns"
proof (rule nth_equalityI)
  show "length (updFirst r (fold updFirst ds (updFirst r ns))) = length (updFirst r ns)"
    by (simp add: length_updFirst length_fold_updFirst)
next
  fix j assume "j < length (updFirst r (fold updFirst ds (updFirst r ns)))"
  then have j: "j < length ns" by (simp add: length_updFirst length_fold_updFirst)
  let ?ns1 = "updFirst r ns"
  let ?ns2 = "fold updFirst ds ?ns1"
  have j1: "j < length ?ns1" and j2: "j < length ?ns2"
    using j by (simp_all add: length_updFirst length_fold_updFirst)
  have id1: "map n_id ?ns1 = map n_id ns" by (rule ids_updFirst)
  have id2: "map n_id ?ns2 = map n_id ns" by (simp add: ids_fold_updFirst ids_updFirst)
  have t2: "findIndex (\<lambda>n. n_id n = r_id r) ?ns2 = findIndex (\<lambda>n. n_id n = r_id r) ns"
    using id2 by (rule findIndex_ids)
  have h: "hits ds ?ns1 j = hits ds ns j" using id1 by (rule hits_ids)
  have fixd: "assignAll (hits ds ns j) (ns ! j) = ns ! j"
    using nth_fold_updFirst[OF j, of ds] st by simp
  have n2: "?ns2 ! j = assignAll (hits ds ns j) (?ns1 ! j)"
    using nth_fold_updFirst[OF j1, of ds] h by simp
  show "updFirst r ?ns2 ! j = ?ns1 ! j"
  proof (cases "findIndex (\<lambda>n. n_id n = r_id r) ns = Some j")
    case True
    have "updFirst r ?ns2 ! j = assignNode (?ns2 ! j) r"
      using nth_updFirst[OF j2, of r] t2 True by simp
    also have "\<dots> = assignNode (assignAll (hits ds ns j) (assignNode (ns ! j) r)) r"
      using n2 nth_updFirst[OF j, of r] True by simp
    also have "\<dots> = assignNode (ns ! j) r" using fixd by (rule assign_again)
    also have "\<dots> = ?ns1 ! j" using nth_updFirst[OF j, of r] True by simp
    finally show ?thesis .
  next
    case False
    have "updFirst r ?ns2 ! j = ?ns2 ! j"
      using nth_updFirst[OF j2, of r] t2 False by simp
    also have "\<dots> = assignAll (hits ds ns j) (ns ! j)"
      using n2 nth_updFirst[OF j, of r] False by simp
    also have "\<dots> = ?ns1 ! j" using fixd nth_updFirst[OF j, of r] False by simp
    finally show ?thesis .
  qed
qed


lemma mergeNode_stable:
  assumes st: "fold updFirst ds (nodes g) = nodes g"
    and pr: "\<forall>q\<in>set ds. r_id q \<in> set (map n_id (nodes g))"
    and lo: "set ex \<subseteq> set (map n_id (nodes g))"
    and up: "set (map n_id (nodes g)) \<subseteq> set ex \<union> set (map r_id ds)"
    and fresh: "r_id r \<notin> set ex \<longrightarrow> r_id r \<notin> set (map r_id ds) \<and> keptByDefaults r"
  shows "fold updFirst (ds @ [r]) (nodes (mergeNode ev ex r g)) = nodes (mergeNode ev ex r g) \<and>
         (\<forall>q\<in>set (ds @ [r]). r_id q \<in> set (map n_id (nodes (mergeNode ev ex r g)))) \<and>
         set ex \<subseteq> set (map n_id (nodes (mergeNode ev ex r g))) \<and>
         set (map n_id (nodes (mergeNode ev ex r g))) \<subseteq> set ex \<union> set (map r_id (ds @ [r]))"
proof (cases "r_id r \<in> set ex")
  case False
  define x where "x = newNode (createPositionedNode ev (rand_calls g) (r_id r) (r_name r)
                      (r_type r) (length (nodes g)) (length (nodes g) + 1)) r"
  have n: "nodes (mergeNode ev ex r g) = nodes g @ [x]"
    using False by (simp add: mergeNode_new x_def)
  have idx: "n_id x = r_id r" by (simp add: x_def newNode_def)
  have kp: "keptByDefaults r" and nd: "r_id r \<notin> set (map r_id ds)" using fresh False by simp_all
  have "r_id r \<notin> set (map n_id (nodes g))" using False nd up by auto
  then have "\<forall>y\<in>set (nodes g). n_id y \<noteq> r_id r" by (metis image_eqI set_map)
  then have "findIndex (\<lambda>n. n_id n = r_id r) (nodes g) = None"
    by (simp add: findIndex_None)
  then have fi: "findIndex (\<lambda>n. n_id n = r_id r) (nodes g @ [x]) = Some (length (nodes g))"
    using idx by (intro findIndex_append_None) auto
  have ax: "assignNode x r = x" unfolding x_def using kp by (rule assignNode_newNode)
  have "fold updFirst (ds @ [r]) (nodes g @ [x]) = updFirst r (fold updFirst ds (nodes g @ [x]))"
    by simp
  also have "\<dots> = updFirst r (nodes g @ [x])"
    using fold_updFirst_append[OF pr, of x] st by simp
  also have "\<dots> = nodes g @ [x]"
    using fi ax by (simp add: updFirst_def)
  finally have s1: "fold updFirst (ds @ [r]) (nodes g @ [x]) = nodes g @ [x]" .
  have s2: "\<forall>q\<in>set (ds @ [r]). r_id q \<in> set (map n_id (nodes g @ [x]))"
    using pr idx by auto
  show ?thesis unfolding n using s1 s2 lo up idx by auto
next
  case True
  have n: "nodes (mergeNode ev ex r g) = updFirst r (nodes g)"
    using True by (simp add: mergeNode_known)
  have "fold updFirst (ds @ [r]) (updFirst r (nodes g)) =
        updFirst r (fold updFirst ds (updFirst r (nodes g)))"
    by simp
  also have "\<dots> = updFirst r (nodes g)" using st by (rule updFirst_again)
  finally have s1: "fold updFirst (ds @ [r]) (updFirst r (nodes g)) = updFirst r (nodes g)" .
  have s2: "\<forall>q\<in>set (ds @ [r]). r_id q \<in> set (map n_id (nodes g))"
    using pr True lo by auto
  show ?thesis unfolding n ids_updFirst using s1 s2 lo up by auto
qed

lemma mergeNodes_stable:
  assumes "distinct (filter (\<lambda>i. i \<notin> set ex) (map r_id (ds @ rest)))"
    and "\<forall>r\<in>set rest. r_id r \<notin> set ex \<longrightarrow> keptByDefaults r"
    and "fold updFirst ds (nodes g) = nodes g"
    and "\<forall>q\<in>set ds. r_id q \<in> set (map n_id (nodes g))"
    and "set ex \<subseteq> set (map n_id (nodes g))"
    and "set (map n_id (nodes g)) \<subseteq> set ex \<union> set (map r_id ds)"
  shows "fold updFirst (ds @ rest) (nodes (mergeNodes ev ex rest g))
           = nodes (mergeNodes ev ex rest g) \<and>
         (\<forall>q\<in>set (ds @ rest). r_id q \<in> set (map n_id (nodes (mergeNodes ev ex rest g))))"
  using assms
proof (induction rest arbitrary: g ds)
  case Nil
  then show ?case by simp
next
  case (Cons r rest)
  have fresh: "r_id r \<notin> set ex \<longrightarrow> r_id r \<notin> set (map r_id ds) \<and> keptByDefaults r"
  proof
    assume new: "r_id r \<notin> set ex"
    have "distinct (filter (\<lambda>i. i \<notin> set ex) (map r_id ds) @
            r_id r # filter (\<lambda>i. i \<notin> set ex) (map r_id rest))"
      using Cons.prems(1) new by simp
    then have "r_id r \<notin> set (filter (\<lambda>i. i \<notin> set ex) (map r_id ds))" by auto
    then have "r_id r \<notin> set (map r_id ds)" using new by auto
    then show "r_id r \<notin> set (map r_id ds) \<and> keptByDefaults r" using Cons.prems(2) new by simp
  qed
  note step = mergeNode_stable[OF Cons.prems(3,4,5,6) fresh, of ev]
  have "fold updFirst ((ds @ [r]) @ rest) (nodes (mergeNodes ev ex rest (mergeNode ev ex r g)))
           = nodes (mergeNodes ev ex rest (mergeNode ev ex r g)) \<and>
         (\<forall>q\<in>set ((ds @ [r]) @ rest).
            r_id q \<in> set (map n_id (nodes (mergeNodes ev ex rest (mergeNode ev ex r g)))))"
  proof (rule Cons.IH)
    show "distinct (filter (\<lambda>i. i \<notin> set ex) (map r_id ((ds @ [r]) @ rest)))"
      using Cons.prems(1) by simp
    show "\<forall>r\<in>set rest. r_id r \<notin> set ex \<longrightarrow> keptByDefaults r" using Cons.prems(2) by simp
    show "fold updFirst (ds @ [r]) (nodes (mergeNode ev ex r g)) = nodes (mergeNode ev ex r g)"
      using step by blast
    show "\<forall>q\<in>set (ds @ [r]). r_id q \<in> set (map n_id (nodes (mergeNode ev ex r g)))"
      using step by blast
    show "set ex \<subseteq> set (map n_id (nodes (mergeNode ev ex r g)))" using step by blast
    show "set (map n_id (nodes (mergeNode ev ex r g))) \<subseteq> set ex \<union> set (map r_id (ds @ [r]))"
      using step by blast
  qed
  then show ?case by simp
qed

lemma merge_stable:
  assumes "distinct (filter (\<lambda>i. i \<notin> set (map n_id (nodes g))) (map r_id rs))"
    and "\<forall>r\<in>set rs. r_id r \<notin> set (map n_id (nodes g)) \<longrightarrow> keptByDefaults r"
  shows "fold updFirst rs (nodes (mergeNodes ev (map n_id (nodes g)) rs g))
           = nodes (mergeNodes ev (map n_id (nodes g)) rs g) \<and>
         (\<forall>q\<in>set rs. r_id q \<in> set (map n_id (nodes (mergeNodes ev (map n_id (nodes g)) rs g))))"
  using mergeNodes_stable[where ds = "[]" and rest = rs and g = g
      and ex = "map n_id (nodes g)" and ev = ev] assms by simp

text \<open>After the self-heal pass, the updates of a batch that the list already absorbed
  give back, node by node, the list before the pass or the list after it.\<close>

lemma between_stable:
  assumes st: "fold updFirst rs ps = ps"
  shows "between ev ps (fold updFirst rs (ensureInitialNodeExpansionStatus ev ps))"
proof -
  let ?hs = "ensureInitialNodeExpansionStatus ev ps"
  have len: "length (fold updFirst rs ?hs) = length ps"
    by (simp add: length_fold_updFirst heal_length)
  have "fold updFirst rs ?hs ! j = ps ! j \<or> fold updFirst rs ?hs ! j = ?hs ! j"
    if j: "j < length ps" for j
  proof -
    have jh: "j < length ?hs" using j by (simp add: heal_length)
    have h: "hits rs ?hs j = hits rs ps j" by (rule hits_ids) (rule heal_ids)
    have q: "fold updFirst rs ?hs ! j = assignAll (hits rs ps j) (?hs ! j)"
      using nth_fold_updFirst[OF jh, of rs] h by simp
    have p: "assignAll (hits rs ps j) (ps ! j) = ps ! j"
      using nth_fold_updFirst[OF j, of rs] st by simp
    show ?thesis
    proof (cases "hits rs ps j")
      case Nil
      then show ?thesis using q by (simp add: assignAll_def)
    next
      case (Cons r1 rest)
      have "assignNode (?hs ! j) r1 = assignNode (ps ! j) r1"
        using heal_unmarked[OF j, of ev] by (rule assignNode_unmarked)
      then have "assignAll (hits rs ps j) (?hs ! j) = assignAll (hits rs ps j) (ps ! j)"
        unfolding Cons by (simp add: assignAll_Cons)
      then show ?thesis using q p by simp
    qed
  qed
  then show ?thesis using len by (simp add: between_def)
qed

lemma incomingNodes_new:
  assumes "incomingNodes data = Some mrs"
    and "\<forall>r\<in>set (batchRecords data). r_id r \<notin> X \<longrightarrow> keptByDefaults r"
  shows "map r_id mrs = map r_id (batchRecords data) \<and>
         (\<forall>r\<in>set mrs. r_id r \<notin> X \<longrightarrow> keptByDefaults r)"
proof -
  from assms(1) obtain rs where rs: "d_nodes data = Some rs"
      "mrs = rs \<or> (\<exists>info. mrs = markExpansion info rs)"
    by (auto simp: incomingNodes_def split: option.splits)
  then have b: "batchRecords data = rs" by (simp add: batchRecords_def)
  from rs(2) show ?thesis
    using assms(2) markExpansion_ids markExpansion_kept unfolding b by metis
qed

lemma updateLinks_ids:
  "k \<in> set ls \<Longrightarrow> l_id (processLink k) \<in> set (map l_id (links (updateLinks True ls g)))"
  by (auto simp: updateLinks_def Let_def)

lemma updateLinks_noop:
  assumes "\<forall>k\<in>set ls. l_id (processLink k) \<in> set (map l_id (links g))"
  shows "updateLinks True ls g = g"
proof -
  have "filter (\<lambda>link. l_id link \<notin> set (map l_id (links g))) (map processLink ls) = []"
    using assms by (auto simp: filter_empty_conv)
  then show ?thesis by (simp add: updateLinks_def Let_def)
qed

lemma nodes_linkStage: "nodes (linkStage inc data g) = nodes g"
  by (simp add: linkStage_def updateLinks_def Let_def split: option.splits)

lemma linkStage_again:
  assumes "map l_id (links g') = map l_id (links (linkStage True data g))"
  shows "linkStage True data g' = g'"
proof (cases "d_links data")
  case None
  then show ?thesis by (simp add: linkStage_def)
next
  case (Some ls)
  have "\<forall>k\<in>set ls. l_id (processLink k) \<in> set (map l_id (links g'))"
    unfolding assms using Some updateLinks_ids by (simp add: linkStage_def)
  then show ?thesis using Some by (simp add: linkStage_def updateLinks_noop)
qed

text \<open>The render binds a link once: a second render leaves the store as it is.\<close>

lemma ids_renderStage: "map l_id (links (renderStage g)) = map l_id (links g)"
  by (simp add: renderStage_def id_bindLink comp_def if_distrib[of l_id] cong: if_cong)

lemma bindLink_idem: "bindLink (bindLink link) = bindLink link"
  by (cases "l_source_id link"; cases "l_target_id link"; cases "l_source link";
      cases "l_target link")
    (simp_all add: bindLink_def end_or_def nodeOf_def)

lemma renderStage_idem: "renderStage (renderStage g) = renderStage g"
proof -
  let ?f = "\<lambda>ns link. if validLink ns link then bindLink link else link"
  have "?f (nodes g) (?f (nodes g) link) = ?f (nodes g) link" for link
    by (simp add: bindLink_idem)
  then have "map (?f (nodes g)) (map (?f (nodes g)) (links g)) = map (?f (nodes g)) (links g)"
    by (simp add: comp_def)
  then show ?thesis by (simp add: renderStage_def)
qed

text \<open>
  Claim C1 (merge idempotence), as the code has it. A node is created with defaults
  (\<open>type: node.type || 'concept'\<close>, \<open>description: node.description || ''\<close>,
  \<open>group: node.group || 0\<close>) but updated by copying the record's own properties
  (\<open>Object.assign\<close>), so a record that creates a node and carries a falsy value other
  than the default itself (an empty type, a \<open>null\<close> description or group) gives the
  default the first time and its own value the second time. Take a batch in which the
  records of nodes that the store does not hold yet have pairwise different ids and carry
  for \<open>type\<close>, \<open>description\<close> and \<open>group\<close> no value or a value that the creation
  keeps; its records of nodes the store holds may repeat ids and carry any values.
  Applying such a batch a second time changes nothing: the store after the second
  \<open>updateGraph(data, true)\<close> is the store after the first, with the same nodes (ids,
  attributes, expansion marks and positions), the same links, bound to the same nodes,
  and no further call of \<open>Math.random()\<close>. This holds for any store to start from, with
  or without expansion information and links in the payload.
\<close>

theorem merge_idempotent:
  assumes dist: "distinct (newIds gr data)"
    and new: "\<forall>r\<in>set (batchRecords data).
                r_id r \<notin> set (map n_id (nodes gr)) \<longrightarrow> keptByDefaults r"
  shows "updateGraph ev (updateGraph ev gr data True) data True = updateGraph ev gr data True"
proof (cases "initialised ev")
  case False
  then show ?thesis by (simp add: updateGraph_def)
next
  case True
  define A where "A = expansionStage ev data gr"
  define B where "B = nodeStage ev True data A"
  define C where "C = linkStage True data B"
  define S where "S = healStage ev C"
  define U where "U = renderStage S"
  define P where "P = nodes B"
  have U: "updateGraph ev gr data True = U"
    using True by (simp add: updateGraph_def A_def B_def C_def S_def U_def)
  have nU: "nodes U = ensureInitialNodeExpansionStatus ev P"
    by (simp add: U_def nodes_renderStage S_def healStage_def C_def nodes_linkStage P_def)
  have lU: "map l_id (links U) = map l_id (links C)"
    by (simp add: U_def ids_renderStage S_def healStage_def)
  have idA: "map n_id (nodes A) = map n_id (nodes gr)"
    by (simp add: A_def expansionStage_def heal_ids split: option.splits)
  have e: "expansionStage ev data U = U"
    by (simp add: expansionStage_def nU heal_idem split: option.splits)
  have "\<exists>Q. nodeStage ev True data U = U\<lparr>nodes := Q\<rparr> \<and> between ev P Q"
  proof (cases "incomingNodes data")
    case None
    then have "nodeStage ev True data U = U\<lparr>nodes := nodes U\<rparr>"
      by (simp add: nodeStage_def)
    then show ?thesis using between_healed[of ev P] nU by metis
  next
    case (Some mrs)
    from incomingNodes_new[OF Some new]
    have ids: "map r_id mrs = map r_id (batchRecords data)"
      and kp: "\<forall>r\<in>set mrs. r_id r \<notin> set (map n_id (nodes A)) \<longrightarrow> keptByDefaults r"
      unfolding idA by simp_all
    have di: "distinct (filter (\<lambda>i. i \<notin> set (map n_id (nodes A))) (map r_id mrs))"
      using dist unfolding newIds_def ids idA .
    have Bm: "B = mergeNodes ev (map n_id (nodes A)) mrs A"
      using Some by (simp add: B_def nodeStage_def updateNodes_def)
    from merge_stable[OF di kp, of ev]
    have st: "fold updFirst mrs P = P" and kn: "\<forall>q\<in>set mrs. r_id q \<in> set (map n_id P)"
      unfolding P_def Bm by simp_all
    have "\<forall>r\<in>set mrs. r_id r \<in> set (map n_id (nodes U))"
      unfolding nU heal_ids using kn .
    then have "mergeNodes ev (map n_id (nodes U)) mrs U = U\<lparr>nodes := fold updFirst mrs (nodes U)\<rparr>"
      by (rule mergeNodes_known)
    then have "nodeStage ev True data U = U\<lparr>nodes := fold updFirst mrs (nodes U)\<rparr>"
      using Some by (simp add: nodeStage_def updateNodes_def)
    moreover have "between ev P (fold updFirst mrs (nodes U))"
      unfolding nU using st by (rule between_stable)
    ultimately show ?thesis by blast
  qed
  then obtain Q where Q: "nodeStage ev True data U = U\<lparr>nodes := Q\<rparr>" "between ev P Q"
    by blast
  have "map l_id (links (U\<lparr>nodes := Q\<rparr>)) = map l_id (links (linkStage True data B))"
    by (simp add: lU C_def)
  then have l: "linkStage True data (U\<lparr>nodes := Q\<rparr>) = U\<lparr>nodes := Q\<rparr>"
    by (rule linkStage_again)
  have "healStage ev (U\<lparr>nodes := Q\<rparr>) = U\<lparr>nodes := ensureInitialNodeExpansionStatus ev Q\<rparr>"
    by (simp add: healStage_def)
  also have "\<dots> = U\<lparr>nodes := nodes U\<rparr>"
    unfolding nU using between_heal[OF Q(2)] by simp
  also have "\<dots> = U" by simp
  finally have h: "healStage ev (U\<lparr>nodes := Q\<rparr>) = U" .
  have r: "renderStage U = U"
    unfolding U_def by (rule renderStage_idem)
  have "updateGraph ev U data True = U"
    using True by (simp add: updateGraph_def e Q(1) l h r)
  then show ?thesis unfolding U .
qed

theorem merge_idempotent_witness:
  "map r_id (batchRecords againAB) = [''a'', ''b'', ''a''] \<and>
   map r_type (batchRecords againAB) = [Some (JStr ''person''), None, Some (JStr ''place'')] \<and>
   map r_group (batchRecords againAB) = [None, None, Some JNull] \<and>
   map n_id (nodes oneNode) = [''a''] \<and> newIds oneNode againAB = [''b''] \<and>
   map n_id (nodes (updateGraph page oneNode againAB True)) = [''a'', ''b''] \<and>
   map n_type (nodes (updateGraph page oneNode againAB True)) = [JStr ''place'', JStr ''concept''] \<and>
   map n_group (nodes (updateGraph page oneNode againAB True)) = [JNull, JNum 0] \<and>
   map (\<lambda>l. (l_id l, l_source l, l_target l)) (links (updateGraph page oneNode againAB True))
     = [(''a-b-related'', NodeObject ''a'', NodeObject ''b'')] \<and>
   updateGraph page (updateGraph page oneNode againAB True) againAB True
     = updateGraph page oneNode againAB True"
proof -
  have b: "batchRecords againAB = [rec ''a'' ''A'' (Some (JStr ''person'')), rec ''b'' ''B'' None,
      (rec ''a'' ''A'' (Some (JStr ''place'')))\<lparr>r_group := Some JNull\<rparr>]"
    by (simp add: batchRecords_def againAB_def)
  have n: "newIds oneNode againAB = [''b'']"
    by (simp add: newIds_def b rec_def oneNode_def plainNode_def)
  have h: "distinct (newIds oneNode againAB)"
    "\<forall>r\<in>set (batchRecords againAB). r_id r \<notin> set (map n_id (nodes oneNode)) \<longrightarrow> keptByDefaults r"
    unfolding n b
    by (simp_all add: rec_def keptByDefaults_def kept_def truthyVal_def oneNode_def plainNode_def)
  have v: "map n_id (nodes oneNode) = [''a'']"
    "map n_id (nodes (updateGraph page oneNode againAB True)) = [''a'', ''b'']"
    "map n_type (nodes (updateGraph page oneNode againAB True)) = [JStr ''place'', JStr ''concept'']"
    "map n_group (nodes (updateGraph page oneNode againAB True)) = [JNull, JNum 0]"
    "map (\<lambda>l. (l_id l, l_source l, l_target l)) (links (updateGraph page oneNode againAB True))
     = [(''a-b-related'', NodeObject ''a'', NodeObject ''b'')]"
    by (simp_all add: merge_eval example_defs)
  from merge_idempotent[OF h, of page] v n show ?thesis
    unfolding b by (simp add: rec_def)
qed

text \<open>
  The claim as stated fails for a record that creates a node with the empty string as
  type, or with \<open>null\<close> as description and group, and for a batch that carries a new id
  twice with different attributes (the first application creates two nodes, the second
  updates the first of them twice).
\<close>

theorem merge_idempotent_counterexample:
  "map n_type (nodes (updateGraph page emptyGraph untypedA True)) = [JStr ''concept''] \<and>
   map n_type (nodes (updateGraph page (updateGraph page emptyGraph untypedA True) untypedA True))
     = [JStr []] \<and>
   map (\<lambda>n. (n_description n, n_group n)) (nodes (updateGraph page emptyGraph nullA True))
     = [(JStr [], JNum 0)] \<and>
   map (\<lambda>n. (n_description n, n_group n))
     (nodes (updateGraph page (updateGraph page emptyGraph nullA True) nullA True))
     = [(JNull, JNull)] \<and>
   map n_type (nodes (updateGraph page emptyGraph twiceA True)) = [JStr ''person'', JStr ''place''] \<and>
   map n_type (nodes (updateGraph page (updateGraph page emptyGraph twiceA True) twiceA True))
     = [JStr ''place'', JStr ''place'']"
  by (simp add: merge_eval example_defs)

section \<open>Unique ids for batches that repeat no id\<close>

lemma mergeNode_distinct:
  assumes fresh: "r_id r \<notin> set (map r_id ds)"
    and di: "distinct (map n_id (nodes g))"
    and up: "set (map n_id (nodes g)) \<subseteq> set ex \<union> set (map r_id ds)"
  shows "distinct (map n_id (nodes (mergeNode ev ex r g))) \<and>
         set (map n_id (nodes (mergeNode ev ex r g))) \<subseteq> set ex \<union> set (map r_id (ds @ [r]))"
proof (cases "r_id r \<in> set ex")
  case False
  have "r_id r \<notin> set (map n_id (nodes g))" using False fresh up by auto
  then show ?thesis
    using False di up by (auto simp: mergeNode_new newNode_def)
next
  case True
  then show ?thesis
    using di up by (auto simp: mergeNode_known ids_updFirst)
qed

lemma mergeNodes_distinct:
  assumes "distinct (map r_id (ds @ rest))"
    and "distinct (map n_id (nodes g))"
    and "set (map n_id (nodes g)) \<subseteq> set ex \<union> set (map r_id ds)"
  shows "distinct (map n_id (nodes (mergeNodes ev ex rest g)))"
  using assms
proof (induction rest arbitrary: g ds)
  case Nil
  then show ?case by simp
next
  case (Cons r rest)
  have fresh: "r_id r \<notin> set (map r_id ds)" using Cons.prems(1) by auto
  note step = mergeNode_distinct[OF fresh Cons.prems(2,3), of ev]
  have "distinct (map n_id (nodes (mergeNodes ev ex rest (mergeNode ev ex r g))))"
  proof (rule Cons.IH)
    show "distinct (map r_id ((ds @ [r]) @ rest))" using Cons.prems(1) by simp
    show "distinct (map n_id (nodes (mergeNode ev ex r g)))" using step by blast
    show "set (map n_id (nodes (mergeNode ev ex r g))) \<subseteq> set ex \<union> set (map r_id (ds @ [r]))"
      using step by blast
  qed
  then show ?case by simp
qed

lemma updateGraph_distinct:
  assumes di: "distinct (map n_id (nodes gr))"
    and ba: "distinct (map r_id (batchRecords data))"
  shows "distinct (map n_id (nodes (updateGraph ev gr data True)))"
proof (cases "initialised ev")
  case False
  then show ?thesis using di by (simp add: updateGraph_def)
next
  case True
  define A where "A = expansionStage ev data gr"
  define B where "B = nodeStage ev True data A"
  have r: "nodes (updateGraph ev gr data True) = ensureInitialNodeExpansionStatus ev (nodes B)"
    using True
    by (simp add: updateGraph_def nodes_renderStage healStage_def nodes_linkStage A_def B_def)
  have a: "distinct (map n_id (nodes A))"
    using di by (simp add: A_def expansionStage_def heal_ids split: option.splits)
  have "distinct (map n_id (nodes B))"
  proof (cases "incomingNodes data")
    case None
    then show ?thesis using a by (simp add: B_def nodeStage_def)
  next
    case (Some mrs)
    then obtain rs where rs: "d_nodes data = Some rs" "map r_id mrs = map r_id rs"
      by (auto simp: incomingNodes_def markExpansion_ids split: option.splits)
    then have "distinct (map r_id mrs)" using ba by (simp add: batchRecords_def)
    then have "distinct (map n_id (nodes (mergeNodes ev (map n_id (nodes A)) mrs A)))"
      using a mergeNodes_distinct[of "[]" mrs A "map n_id (nodes A)" ev] by simp
    then show ?thesis using Some by (simp add: B_def nodeStage_def updateNodes_def)
  qed
  then show ?thesis unfolding r heal_ids .
qed

lemma applyIncremental_distinct:
  assumes "distinct (map n_id (nodes gr))"
    and "\<forall>data\<in>set batches. distinct (map r_id (batchRecords data))"
  shows "distinct (map n_id (nodes (applyIncremental ev gr batches)))"
  using assms unfolding applyIncremental_def
proof (induction batches arbitrary: gr)
  case Nil
  then show ?case by simp
next
  case (Cons data batches)
  have "distinct (map n_id (nodes (updateGraph ev gr data True)))"
    using Cons.prems by (intro updateGraph_distinct) auto
  then show ?case using Cons.prems(2) Cons.IH by simp
qed

text \<open>
  What the check of known ids does achieve: starting from the empty store, after any
  sequence of incremental updates none of whose batches repeats an id, no two nodes of
  the store share an id.
\<close>

theorem unique_ids_without_repeats:
  assumes "\<forall>data\<in>set batches. distinct (map r_id (batchRecords data))"
  shows "distinct (map n_id (nodes (applyIncremental ev emptyGraph batches)))"
  using assms by (intro applyIncremental_distinct) (simp_all add: emptyGraph_def)

theorem unique_ids_without_repeats_witness:
  "map n_id (nodes (applyIncremental page emptyGraph [retypeA, growAB])) = [''a'', ''b''] \<and>
   distinct (map n_id (nodes (applyIncremental page emptyGraph [retypeA, growAB])))"
proof -
  have h: "\<forall>data\<in>set [retypeA, growAB]. distinct (map r_id (batchRecords data))"
    by (simp add: batchRecords_def example_defs)
  have "map n_id (nodes (applyIncremental page emptyGraph [retypeA, growAB])) = [''a'', ''b'']"
    by (simp add: applyIncremental_def merge_eval example_defs)
  with unique_ids_without_repeats[OF h, of page] show ?thesis by simp
qed

end
